theory Spec2Isabelle
  imports Complex_Main "HOL-Library.AList"
begin

section \<open>Python strings\<close>

text \<open>
  A Python \<open>str\<close> is modelled as a \<open>string\<close>, one \<open>char\<close> per code point; the
  model covers the code points below 256.  \<open>is_space\<close> is \<open>str.isspace\<close> on one
  character, which is also what \<open>\s\<close> matches in a \<open>re\<close> pattern over \<open>str\<close>;
  \<open>is_digit\<close> is what \<open>\d\<close> matches.
\<close>

definition is_space :: "char \<Rightarrow> bool" where
  "is_space c = (of_char c \<in> {9, 10, 11, 12, 13, 28, 29, 30, 31, 32, 133, 160 :: int})"

definition is_digit :: "char \<Rightarrow> bool" where
  "is_digit c = (48 \<le> (of_char c :: int) \<and> (of_char c :: int) \<le> 57)"

definition newline :: char where
  "newline = char_of (10 :: int)"

text \<open>\<open>s.strip()\<close>: leading and trailing whitespace removed.\<close>

definition strip :: "string \<Rightarrow> string" where
  "strip s = rev (dropWhile is_space (rev (dropWhile is_space s)))"

text \<open>\<open>s.lower()\<close>: A to Z, and the upper-case letters of Latin-1.\<close>

definition lower_char :: "char \<Rightarrow> char" where
  "lower_char c =
     (let n = (of_char c :: int)
      in if (65 \<le> n \<and> n \<le> 90) \<or> (192 \<le> n \<and> n \<le> 222 \<and> n \<noteq> 215)
         then char_of (n + 32) else c)"

definition lower :: "string \<Rightarrow> string" where
  "lower s = map lower_char s"

section \<open>Label Normalizer\<close>

text \<open>
  \<open>re.sub(r"\s*\d+$", "", s)\<close>, the call behind \<open>.str.replace(r"\s*\d+$", "", regex=True)\<close>.
  \<open>match_here\<close> tries the pattern at the start of \<open>xs\<close>: whitespace and digits are
  disjoint, so the only way to match is all the whitespace, then all the digits, and then
  \<open>$\<close>, which in Python holds at the end of the string and also just before a newline
  that ends the string.  It returns what follows the match.
\<close>

definition match_here :: "string \<Rightarrow> string option" where
  "match_here xs =
     (let r = dropWhile is_space xs;
          ds = takeWhile is_digit r;
          rest = dropWhile is_digit r
      in if ds \<noteq> [] \<and> (rest = [] \<or> rest = [newline]) then Some rest else None)"

text \<open>
  \<open>sub\<close> replaces every non-overlapping match by the empty string, scanning from the
  left: at a match it goes on behind the match, elsewhere it keeps one character.
\<close>

function re_sub_trailing :: "string \<Rightarrow> string" where
  "re_sub_trailing xs =
     (case match_here xs of
        Some rest \<Rightarrow> re_sub_trailing rest
      | None \<Rightarrow> (case xs of [] \<Rightarrow> [] | x # xs' \<Rightarrow> x # re_sub_trailing xs'))"
  by pat_completeness auto

termination re_sub_trailing
proof (relation "measure length")
  show "wf (measure length)" by simp
next
  fix xs rest
  assume m: "match_here xs = Some rest"
  let ?r = "dropWhile is_space xs"
  from m have ds: "takeWhile is_digit ?r \<noteq> []" and rest: "rest = dropWhile is_digit ?r"
    by (auto simp: match_here_def Let_def split: if_splits)
  have "length ?r = length (takeWhile is_digit ?r) + length rest"
    unfolding rest by (metis length_append takeWhile_dropWhile_id)
  with ds have "length rest < length ?r" by simp
  also have "length ?r \<le> length xs" by (rule length_dropWhile_le)
  finally show "(rest, xs) \<in> measure length" by simp
next
  fix xs :: string and x xs'
  assume "xs = x # xs'"
  then show "(xs', xs) \<in> measure length" by simp
qed

declare re_sub_trailing.simps [simp del]

text \<open>Line 74 of \<open>clean_table\<close>, on one label.\<close>

definition normalize_label :: "string \<Rightarrow> string" where
  "normalize_label s = strip (re_sub_trailing s)"

section \<open>Numeric Coercer\<close>

text \<open>
  A cell of a raw table is a Python object: a \<open>str\<close>, an \<open>int\<close>, or the missing
  value NaN that the table reader puts where the page has no text.  (Cells that hold a
  fraction as a float are not modelled: their text is a matter of floating point.)
  A cell of a cleaned table is a value of a numeric column: a finite number, NaN, or an
  infinity.
\<close>

datatype cell = Text string | IntC int | NaNC

datatype number = Num rat | NaN | PosInf | NegInf

text \<open>\<open>str(n)\<close> for an \<open>int\<close>.\<close>

function show_digits :: "int \<Rightarrow> string" where
  "show_digits n =
     (if n < 10 then [char_of (48 + n)]
      else show_digits (n div 10) @ [char_of (48 + n mod 10)])"
  by pat_completeness auto
termination
  by (relation "measure nat") auto

definition show_int :: "int \<Rightarrow> string" where
  "show_int i = (if i < 0 then CHR ''-'' # show_digits (- i) else show_digits i)"

text \<open>\<open>.astype(str)\<close> on one cell.\<close>

fun astype_str :: "cell \<Rightarrow> string" where
  "astype_str (Text s) = s"
| "astype_str (IntC i) = show_int i"
| "astype_str NaNC = ''nan''"

text \<open>\<open>df.replace("-", 0)\<close> on one cell: only the cell that is exactly \<open>"-"\<close> changes.\<close>

definition replace_dash :: "cell \<Rightarrow> cell" where
  "replace_dash c = (if c = Text ''-'' then IntC 0 else c)"

text \<open>\<open>.str.replace(r"[\$,]", "", regex=True)\<close>: every dollar sign and comma goes.\<close>

definition strip_currency :: "string \<Rightarrow> string" where
  "strip_currency s = filter (\<lambda>c. c \<noteq> CHR ''$'' \<and> c \<noteq> CHR '','') s"

text \<open>
  \<open>pd.to_numeric(column, errors='coerce')\<close> is pandas' code, not this program's.  It
  takes a column of strings and returns a numeric column; it decides the column's type
  from all its cells, and how it reads and rounds a text is a matter of floating point.
  So it is not defined here: it is the parameter \<open>to_numeric\<close> of \<open>clean_table\<close> and
  of everything that calls it, and what a property needs of it is said where the
  property is stated.  With \<open>errors='coerce'\<close> the call raises nothing.
\<close>

type_synonym parser = "string list \<Rightarrow> number list"

section \<open>Tables\<close>

text \<open>
  A pandas DataFrame is kept column by column, as pandas does: each column is its label
  and its cells, top to bottom.  A raw table, as the table reader returns it, has the
  default row index, which the code never reads.  A cleaned table has the component
  labels as its row index.  Column labels are strings.
\<close>

record raw_frame =
  rcols :: "(string \<times> cell list) list"

record 'a frame =
  findex :: "string list"
  fcols :: "(string \<times> 'a list) list"

definition fcolumns :: "'a frame \<Rightarrow> string list" where
  "fcolumns df = map fst (fcols df)"

text \<open>The exceptions that the pipeline can meet.\<close>

datatype error = IndexError | AttributeError | ValueError | KeyError

section \<open>Table Cleaner: \<open>clean_table\<close>\<close>

text \<open>
  Line 73, \<open>df.rename(columns={df.columns[0]: "Component"})\<close>: \<open>df.columns[0]\<close>
  raises IndexError on a table without columns; every column that carries the first
  column's label is renamed.
\<close>

definition rename_first :: "raw_frame \<Rightarrow> error + raw_frame" where
  "rename_first df =
     (case rcols df of
        [] \<Rightarrow> Inl IndexError
      | (c0, _) # _ \<Rightarrow>
          Inr (df\<lparr>rcols := map (\<lambda>(c, xs). (if c = c0 then ''Component'' else c, xs)) (rcols df)\<rparr>))"

text \<open>
  Line 74, \<open>df["Component"] = df["Component"].astype(str).str.replace(...).str.strip()\<close>.
  When two columns are labelled \<open>"Component"\<close>, \<open>df["Component"]\<close> is a DataFrame,
  which has no \<open>.str\<close>: AttributeError.
\<close>

definition set_component :: "raw_frame \<Rightarrow> error + raw_frame" where
  "set_component df =
     (if count_list (map fst (rcols df)) ''Component'' \<noteq> 1 then Inl AttributeError
      else Inr (df\<lparr>rcols :=
             map (\<lambda>(c, xs). (c, if c = ''Component''
                                  then map (\<lambda>x. Text (normalize_label (astype_str x))) xs
                                  else xs))
                 (rcols df)\<rparr>))"

text \<open>
  Line 75, \<open>df.set_index("Component")\<close>: the cells of that column become the row
  labels and the column leaves the table.  It is called where exactly one column has
  the label, and its cells are strings.
\<close>

definition set_index :: "raw_frame \<Rightarrow> cell frame" where
  "set_index df =
     \<lparr>findex = (case map_of (rcols df) ''Component'' of
                   Some xs \<Rightarrow> map astype_str xs | None \<Rightarrow> []),
      fcols = filter (\<lambda>(c, xs). c \<noteq> ''Component'') (rcols df)\<rparr>"

text \<open>Line 76, \<open>df.replace("-", 0)\<close>, on every cell; the row labels are not cells.\<close>

definition replace_all :: "cell frame \<Rightarrow> cell frame" where
  "replace_all df = df\<lparr>fcols := map (\<lambda>(c, xs). (c, map replace_dash xs)) (fcols df)\<rparr>"

text \<open>
  Lines 77 and 78, the loop over \<open>df.columns\<close>.  Where a label occurs twice,
  \<open>df[col]\<close> is a DataFrame and \<open>.str\<close> raises AttributeError; otherwise every
  column is replaced by what \<open>pd.to_numeric\<close> returns for its cells, turned into
  text and freed of dollar signs and commas.
\<close>

definition to_numeric_columns :: "parser \<Rightarrow> cell frame \<Rightarrow> error + number frame" where
  "to_numeric_columns to_numeric df =
     (if \<not> distinct (fcolumns df) then Inl AttributeError
      else Inr \<lparr>findex = findex df,
                fcols = map (\<lambda>(c, xs). (c, to_numeric (map (\<lambda>x. strip_currency (astype_str x)) xs)))
                            (fcols df)\<rparr>)"

definition clean_table :: "parser \<Rightarrow> raw_frame \<Rightarrow> error + number frame" where
  "clean_table to_numeric df =
     (case rename_first df of
        Inl e \<Rightarrow> Inl e
      | Inr df1 \<Rightarrow>
          (case set_component df1 of
             Inl e \<Rightarrow> Inl e
           | Inr df2 \<Rightarrow> to_numeric_columns to_numeric (replace_all (set_index df2))))"

section \<open>Aggregator: \<open>aggregate_data\<close>\<close>

text \<open>A boolean mask applied to the rows of a table, \<open>df[mask]\<close>.\<close>

definition keep :: "bool list \<Rightarrow> 'a list \<Rightarrow> 'a list" where
  "keep flags xs = map snd (filter fst (zip flags xs))"

text \<open>
  Lines 92 and 93: the rows whose label, in lower case, is one of the components in
  lower case.
\<close>

definition select_components :: "string list \<Rightarrow> 'a frame \<Rightarrow> 'a frame" where
  "select_components components df =
     (let desired = map lower components;
          flags = map (\<lambda>l. lower l \<in> set desired) (findex df)
      in \<lparr>findex = keep flags (findex df),
          fcols = map (\<lambda>(c, xs). (c, keep flags xs)) (fcols df)\<rparr>)"

text \<open>
  Line 95, \<open>sel_df.reindex(components, fill_value=0)\<close>.  pandas returns the table as
  it is when its row labels already are \<open>components\<close>; it raises ValueError
  (cannot reindex on an axis with duplicate labels) when a row label occurs twice;
  otherwise the new table has one row per component, the row of that exact label or
  else a row of zeros.
\<close>

definition reindex_rows :: "string list \<Rightarrow> number frame \<Rightarrow> error + number frame" where
  "reindex_rows components df =
     (if findex df = components then Inr df
      else if \<not> distinct (findex df) then Inl ValueError
      else Inr \<lparr>findex = components,
                fcols = map (\<lambda>(c, xs).
                          (c, map (\<lambda>l. case map_of (zip (findex df) xs) l of
                                          Some v \<Rightarrow> v | None \<Rightarrow> Num 0) components))
                        (fcols df)\<rparr>)"

text \<open>Line 97, \<open>sel_df.reindex(columns=years, fill_value=0)\<close>, the same on the columns.\<close>

definition reindex_columns :: "string list \<Rightarrow> number frame \<Rightarrow> error + number frame" where
  "reindex_columns years df =
     (if fcolumns df = years then Inr df
      else if \<not> distinct (fcolumns df) then Inl ValueError
      else Inr \<lparr>findex = findex df,
                fcols = map (\<lambda>y. case map_of (fcols df) y of
                                    Some xs \<Rightarrow> (y, xs)
                                  | None \<Rightarrow> (y, replicate (length (findex df)) (Num 0)))
                            years\<rparr>)"

text \<open>Lines 90 to 97: what the \<open>try\<close> block computes from one table.\<close>

definition process_table ::
  "parser \<Rightarrow> string list \<Rightarrow> string list \<Rightarrow> raw_frame \<Rightarrow> error + number frame" where
  "process_table to_numeric years components tbl =
     (case clean_table to_numeric tbl of
        Inl e \<Rightarrow> Inl e
      | Inr clean_df \<Rightarrow>
          (case reindex_rows components (select_components components clean_df) of
             Inl e \<Rightarrow> Inl e
           | Inr sel_df \<Rightarrow> reindex_columns years sel_df))"

text \<open>
  A Python \<open>dict\<close> keeps its keys in the order of their first insertion, and storing
  under a key that is there replaces the value in place: an association list with
  \<open>AList.update\<close>.  The loop of \<open>aggregate_data\<close> also prints one line for every
  table whose \<open>try\<close> block raised; \<open>printed\<close> keeps the table's position and the
  exception.  Line 98 reads \<open>province_names[i]\<close> inside the \<open>try\<close>, so a missing
  name is an IndexError that is caught like the others.  \<open>store_result\<close> is the end
  of one round of the loop: the assignment of line 98 or the \<open>except\<close> branch.
\<close>

type_synonym dataset = "(string \<times> number frame) list"

record agg_state =
  data_dict :: dataset
  printed :: "(nat \<times> error) list"

definition store_result ::
  "string list \<Rightarrow> nat \<Rightarrow> error + number frame \<Rightarrow> agg_state \<Rightarrow> agg_state" where
  "store_result province_names i r st =
     (case r of
        Inl e \<Rightarrow> st\<lparr>printed := printed st @ [(i, e)]\<rparr>
      | Inr sel_df \<Rightarrow>
          if i < length province_names
          then st\<lparr>data_dict := AList.update (province_names ! i) sel_df (data_dict st)\<rparr>
          else st\<lparr>printed := printed st @ [(i, IndexError)]\<rparr>)"

definition aggregate_step ::
  "parser \<Rightarrow> string list \<Rightarrow> string list \<Rightarrow> string list \<Rightarrow> nat \<Rightarrow> raw_frame \<Rightarrow>
   agg_state \<Rightarrow> agg_state" where
  "aggregate_step to_numeric province_names years components i tbl st =
     store_result province_names i (process_table to_numeric years components tbl) st"

fun aggregate_loop ::
  "parser \<Rightarrow> string list \<Rightarrow> string list \<Rightarrow> string list \<Rightarrow> nat \<Rightarrow> raw_frame list \<Rightarrow>
   agg_state \<Rightarrow> agg_state" where
  "aggregate_loop to_numeric province_names years components i [] st = st"
| "aggregate_loop to_numeric province_names years components i (tbl # tables) st =
     aggregate_loop to_numeric province_names years components (Suc i) tables
       (aggregate_step to_numeric province_names years components i tbl st)"

text \<open>
  \<open>aggregate_run\<close> is the call of \<open>aggregate_data\<close> with what it prints;
  \<open>aggregate_data\<close> is the dictionary it returns.
\<close>

definition aggregate_run ::
  "parser \<Rightarrow> raw_frame list \<Rightarrow> string list \<Rightarrow> string list \<Rightarrow> string list \<Rightarrow> agg_state" where
  "aggregate_run to_numeric tables province_names years components =
     aggregate_loop to_numeric province_names years components 0 tables
       \<lparr>data_dict = [], printed = []\<rparr>"

definition aggregate_data ::
  "parser \<Rightarrow> raw_frame list \<Rightarrow> string list \<Rightarrow> string list \<Rightarrow> string list \<Rightarrow> dataset" where
  "aggregate_data to_numeric tables province_names years components =
     data_dict (aggregate_run to_numeric tables province_names years components)"

section \<open>The module's constants and its start-up\<close>

definition chart_titles :: "string list" where
  "chart_titles =
     [''Federal Support to Provinces and Territories'',
      ''Federal Support to Newfoundland and Labrador'',
      ''Federal Support to Prince Edward Island'',
      ''Federal Support to Nova Scotia'',
      ''Federal Support to New Brunswick'',
      ''Federal Support to Quebec'',
      ''Federal Support to Ontario'',
      ''Federal Support to Manitoba'',
      ''Federal Support to Saskatchewan'',
      ''Federal Support to Alberta'',
      ''Federal Support to British Columbia'',
      ''Federal Support to Yukon'',
      ''Federal Support to Northwest Territories'',
      ''Federal Support to Nunavut'']"

definition years :: "string list" where
  "years = [''2016-17'', ''2017-18'', ''2018-19'', ''2019-20'', ''2020-21'',
            ''2021-22'', ''2022-23'', ''2023-24'', ''2024-25'', ''2025-26'']"

definition components :: "string list" where
  "components =
     [''Canada Health Transfer'',
      ''Canada Social Transfer'',
      ''Equalization'',
      ''Offshore Offsets'',
      ''Territorial Formula Financing'',
      ''Total - Federal Support'',
      ''Per Capita Allocation (dollars)'']"

text \<open>\<open>p in s\<close> on strings: \<open>p\<close> occurs in \<open>s\<close>.\<close>

fun contains :: "string \<Rightarrow> string \<Rightarrow> bool" where
  "contains p [] = (p = [])"
| "contains p (x # xs) = (take (length p) (x # xs) = p \<or> contains p xs)"

text \<open>
  \<open>s.replace(old, "")\<close> for a non-empty \<open>old\<close>: the occurrences of \<open>old\<close> are
  removed from left to right, without overlap.  The number counts the characters of
  the current occurrence that are still to be skipped.
\<close>

fun remove_all :: "string \<Rightarrow> nat \<Rightarrow> string \<Rightarrow> string" where
  "remove_all old k [] = []"
| "remove_all old (Suc k) (x # xs) = remove_all old k xs"
| "remove_all old 0 (x # xs) =
     (if take (length old) (x # xs) = old then remove_all old (length old - 1) xs
      else x # remove_all old 0 xs)"

definition extract_province_name :: "string \<Rightarrow> string" where
  "extract_province_name title =
     (if contains ''Provinces and Territories'' title then ''Aggregate''
      else strip (remove_all ''Federal Support to '' 0 title))"

text \<open>
  Lines 119 to 123.  \<open>get_tables\<close> fetches the page; the tables it returns are the
  input here (an empty list when fetching failed).  \<open>startup_run\<close> is line 123 with
  what it prints, \<open>startup\<close> the module's \<open>data_dict\<close>.
\<close>

definition num_tables :: "raw_frame list \<Rightarrow> nat" where
  "num_tables tables = min 14 (length tables)"

definition province_names :: "raw_frame list \<Rightarrow> string list" where
  "province_names tables = map extract_province_name (take (num_tables tables) chart_titles)"

definition startup_run :: "parser \<Rightarrow> raw_frame list \<Rightarrow> agg_state" where
  "startup_run to_numeric tables =
     aggregate_run to_numeric (take (num_tables tables) tables) (province_names tables)
       years components"

definition startup :: "parser \<Rightarrow> raw_frame list \<Rightarrow> dataset" where
  "startup to_numeric tables = data_dict (startup_run to_numeric tables)"

section \<open>Query Projector: \<open>build_long_dataframe\<close> and \<open>update_graph\<close>\<close>

text \<open>
  \<open>df.at[r, c]\<close>: KeyError when the row label or the column label is not there.
  It is read on the tables of the dataset, whose labels are unique.
\<close>

definition frame_at :: "'a frame \<Rightarrow> string \<Rightarrow> string \<Rightarrow> error + 'a" where
  "frame_at df r c =
     (case map_of (fcols df) c of
        None \<Rightarrow> Inl KeyError
      | Some xs \<Rightarrow> (case map_of (zip (findex df) xs) r of
                      None \<Rightarrow> Inl KeyError
                    | Some v \<Rightarrow> Inr v))"

record projection_row =
  Province :: string
  Component :: string
  Value :: number

text \<open>
  Lines 133 to 144.  The function reads the module's \<open>data_dict\<close> and
  \<open>components\<close>; the dataset is a parameter here.  Any exception of \<open>df.at\<close> is
  caught and the value is 0.
\<close>

definition province_rows :: "string \<Rightarrow> string \<times> number frame \<Rightarrow> projection_row list" where
  "province_rows year item =
     map (\<lambda>comp. \<lparr>Province = fst item, Component = comp,
                  Value = (case frame_at (snd item) comp year of Inr v \<Rightarrow> v | Inl e \<Rightarrow> Num 0)\<rparr>)
         components"

definition build_long_dataframe :: "dataset \<Rightarrow> string \<Rightarrow> bool \<Rightarrow> projection_row list" where
  "build_long_dataframe dd year include_aggregate =
     concat (map (\<lambda>item. if \<not> include_aggregate \<and> lower (fst item) = ''aggregate'' then []
                          else province_rows year item) dd)"

text \<open>
  Lines 186 to 191: the rows handed to the chart.  \<open>aggregate_val\<close> is the value of
  the checklist, which may be \<open>None\<close>.  A DataFrame built from no rows has no
  \<open>"Component"\<close> column, so the filter raises KeyError then.
\<close>

definition update_graph ::
  "dataset \<Rightarrow> string \<Rightarrow> string list \<Rightarrow> string list option \<Rightarrow> error + projection_row list" where
  "update_graph dd selected_year selected_components aggregate_val =
     (let include_aggregate = (case aggregate_val of None \<Rightarrow> True | Some vs \<Rightarrow> ''include'' \<in> set vs);
          df_long = build_long_dataframe dd selected_year include_aggregate
      in if df_long = [] then Inl KeyError
         else Inr (filter (\<lambda>row. Component row \<in> set selected_components) df_long))"

section \<open>The tables as objects\<close>

text \<open>
  The definitions above compute with tables as values.  In Python a table is an object
  that several names can refer to, and two statements of \<open>clean_table\<close> assign in
  place.  Here the objects are made explicit: a store is the list of all objects, an
  address is a position in it, a new object is put at the end.  The table that the
  loop of lines 77 and 78 converts column by column holds cells that are still objects
  (\<open>Inl\<close>) and cells that are numbers already (\<open>Inr\<close>).
\<close>

datatype obj = Raw raw_frame | Tbl "(cell + number) frame"

type_synonym store = "obj list"

definition lookup :: "store \<Rightarrow> nat \<Rightarrow> obj option" where
  "lookup s a = (if a < length s then Some (s ! a) else None)"

definition new_obj :: "obj \<Rightarrow> store \<Rightarrow> (error + nat) \<times> store" where
  "new_obj ob s = (Inr (length s), s @ [ob])"

text \<open>One statement after the other; an exception ends the function.\<close>

definition then_do ::
  "(store \<Rightarrow> (error + 'a) \<times> store) \<Rightarrow> ('a \<Rightarrow> store \<Rightarrow> (error + 'b) \<times> store) \<Rightarrow>
   store \<Rightarrow> (error + 'b) \<times> store" where
  "then_do m f s = (case m s of (Inl e, s') \<Rightarrow> (Inl e, s') | (Inr x, s') \<Rightarrow> f x s')"

text \<open>
  Line 73: \<open>rename\<close> returns a new table and leaves its argument alone.  (A value
  that is not a table has none of the attributes used: AttributeError.)
\<close>

definition rename_st :: "nat \<Rightarrow> store \<Rightarrow> (error + nat) \<times> store" where
  "rename_st a s =
     (case lookup s a of
        Some (Raw df) \<Rightarrow>
          (case rename_first df of Inl e \<Rightarrow> (Inl e, s) | Inr df1 \<Rightarrow> new_obj (Raw df1) s)
      | _ \<Rightarrow> (Inl AttributeError, s))"

text \<open>Line 74: the assignment to \<open>df["Component"]\<close> changes the table \<open>df\<close> refers to.\<close>

definition set_component_st :: "nat \<Rightarrow> store \<Rightarrow> (error + unit) \<times> store" where
  "set_component_st a s =
     (case lookup s a of
        Some (Raw df) \<Rightarrow>
          (case set_component df of Inl e \<Rightarrow> (Inl e, s) | Inr df2 \<Rightarrow> (Inr (), s[a := Raw df2]))
      | _ \<Rightarrow> (Inl AttributeError, s))"

text \<open>Lines 75 and 76: \<open>set_index\<close> and \<open>replace\<close> each return a new table.\<close>

definition object_cells :: "cell frame \<Rightarrow> (cell + number) frame" where
  "object_cells df = \<lparr>findex = findex df, fcols = map (\<lambda>(c, xs). (c, map Inl xs)) (fcols df)\<rparr>"

definition set_index_st :: "nat \<Rightarrow> store \<Rightarrow> (error + nat) \<times> store" where
  "set_index_st a s =
     (case lookup s a of
        Some (Raw df) \<Rightarrow> new_obj (Tbl (object_cells (set_index df))) s
      | _ \<Rightarrow> (Inl AttributeError, s))"

definition replace_st :: "nat \<Rightarrow> store \<Rightarrow> (error + nat) \<times> store" where
  "replace_st a s =
     (case lookup s a of
        Some (Tbl df) \<Rightarrow>
          new_obj (Tbl (df\<lparr>fcols := map (\<lambda>(c, xs). (c, map (map_sum replace_dash id) xs)) (fcols df)\<rparr>)) s
      | _ \<Rightarrow> (Inl AttributeError, s))"

text \<open>
  Lines 77 and 78.  \<open>df.columns\<close> is read once, before the loop.  Each round reads
  the column \<open>col\<close> of the table, which raises where the label is not unique, and
  assigns in place what \<open>pd.to_numeric\<close> returns for it.  Where the loop goes on
  the label is unique, so the column still holds the objects of the table and is
  converted once (lemma \<open>to_numeric_loop_partly\<close>); the other branch of
  \<open>convert_cells\<close>, for a column that holds numbers already, is never taken.
\<close>

definition columns_st :: "nat \<Rightarrow> store \<Rightarrow> (error + string list) \<times> store" where
  "columns_st a s =
     (case lookup s a of
        Some (Tbl df) \<Rightarrow> (Inr (fcolumns df), s)
      | _ \<Rightarrow> (Inl AttributeError, s))"

definition convert_cells :: "parser \<Rightarrow> (cell + number) list \<Rightarrow> (cell + number) list" where
  "convert_cells to_numeric xs =
     (if list_all isl xs
      then map Inr (to_numeric (map (\<lambda>x. strip_currency (astype_str (projl x))) xs))
      else xs)"

definition convert_column ::
  "parser \<Rightarrow> string \<Rightarrow> (cell + number) frame \<Rightarrow> (cell + number) frame" where
  "convert_column to_numeric col df =
     df\<lparr>fcols := map (\<lambda>(c, xs). (c, if c = col then convert_cells to_numeric xs else xs)) (fcols df)\<rparr>"

fun to_numeric_loop :: "parser \<Rightarrow> string list \<Rightarrow> nat \<Rightarrow> store \<Rightarrow> (error + unit) \<times> store" where
  "to_numeric_loop to_numeric [] a s = (Inr (), s)"
| "to_numeric_loop to_numeric (col # cols) a s =
     (case lookup s a of
        Some (Tbl df) \<Rightarrow>
          if count_list (fcolumns df) col \<noteq> 1 then (Inl AttributeError, s)
          else to_numeric_loop to_numeric cols a (s[a := Tbl (convert_column to_numeric col df)])
      | _ \<Rightarrow> (Inl AttributeError, s))"

text \<open>
  Line 79: the table is returned.  Nothing else refers to it, so the caller gets it as
  a value; all its columns are numbers then.
\<close>

definition numbers_of :: "(cell + number) frame \<Rightarrow> number frame option" where
  "numbers_of df =
     (if list_all (\<lambda>(c, xs). list_all (\<lambda>x. \<not> isl x) xs) (fcols df)
      then Some \<lparr>findex = findex df, fcols = map (\<lambda>(c, xs). (c, map projr xs)) (fcols df)\<rparr>
      else None)"

definition return_st :: "nat \<Rightarrow> store \<Rightarrow> (error + number frame) \<times> store" where
  "return_st a s =
     (case lookup s a of
        Some (Tbl df) \<Rightarrow> (case numbers_of df of Some d \<Rightarrow> (Inr d, s) | None \<Rightarrow> (Inl AttributeError, s))
      | _ \<Rightarrow> (Inl AttributeError, s))"

definition clean_table_st :: "parser \<Rightarrow> nat \<Rightarrow> store \<Rightarrow> (error + number frame) \<times> store" where
  "clean_table_st to_numeric a =
     then_do (rename_st a) (\<lambda>df1.
     then_do (set_component_st df1) (\<lambda>u.
     then_do (set_index_st df1) (\<lambda>df2.
     then_do (replace_st df2) (\<lambda>df3.
     then_do (columns_st df3) (\<lambda>cols.
     then_do (to_numeric_loop to_numeric cols df3) (\<lambda>u.
     return_st df3))))))"

text \<open>
  \<open>aggregate_data\<close> on tables given by their addresses.  Selecting and reindexing
  return new tables that nothing else refers to; they are kept as values.
\<close>

definition process_table_st ::
  "parser \<Rightarrow> string list \<Rightarrow> string list \<Rightarrow> nat \<Rightarrow> store \<Rightarrow> (error + number frame) \<times> store" where
  "process_table_st to_numeric ys cs a =
     then_do (clean_table_st to_numeric a) (\<lambda>clean_df s.
       ((case reindex_rows cs (select_components cs clean_df) of
           Inl e \<Rightarrow> Inl e
         | Inr sel_df \<Rightarrow> reindex_columns ys sel_df), s))"

fun aggregate_loop_st ::
  "parser \<Rightarrow> string list \<Rightarrow> string list \<Rightarrow> string list \<Rightarrow> nat \<Rightarrow> nat list \<Rightarrow>
   agg_state \<times> store \<Rightarrow> agg_state \<times> store" where
  "aggregate_loop_st to_numeric names ys cs i [] sts = sts"
| "aggregate_loop_st to_numeric names ys cs i (a # tables) sts =
     (case process_table_st to_numeric ys cs a (snd sts) of
        (r, s') \<Rightarrow>
          aggregate_loop_st to_numeric names ys cs (Suc i) tables
            (store_result names i r (fst sts), s'))"

definition aggregate_data_st ::
  "parser \<Rightarrow> nat list \<Rightarrow> string list \<Rightarrow> string list \<Rightarrow> string list \<Rightarrow> store \<Rightarrow>
   dataset \<times> store" where
  "aggregate_data_st to_numeric tables names ys cs s =
     (case aggregate_loop_st to_numeric names ys cs 0 tables
             (\<lparr>data_dict = [], printed = []\<rparr>, s) of
        (st, s') \<Rightarrow> (data_dict st, s'))"

section \<open>Notions used to state the properties\<close>

text \<open>
  What one table contributes to the dataset under a given name: nothing when its
  \<open>try\<close> block raises, else the name with the table the block computed.
\<close>

definition stored ::
  "parser \<Rightarrow> string list \<Rightarrow> string list \<Rightarrow> string \<times> raw_frame \<Rightarrow>
   (string \<times> number frame) option" where
  "stored tn ys cs p =
     (case process_table tn ys cs (snd p) of Inl e \<Rightarrow> None | Inr f \<Rightarrow> Some (fst p, f))"

text \<open>
  What one table adds to the printed lines, where a name is there for its position:
  the line of its exception when its \<open>try\<close> block raises, else nothing.
\<close>

definition failure ::
  "parser \<Rightarrow> string list \<Rightarrow> string list \<Rightarrow> nat \<times> raw_frame \<Rightarrow> (nat \<times> error) option" where
  "failure tn ys cs p =
     (case process_table tn ys cs (snd p) of Inl e \<Rightarrow> Some (fst p, e) | Inr f \<Rightarrow> None)"

text \<open>
  Lines 76 and 78 before the call of \<open>pd.to_numeric\<close>: the text of a raw cell that
  reaches the parser, the dash replaced by 0, dollar signs and commas removed.
\<close>

definition prepare :: "cell \<Rightarrow> string" where
  "prepare c = strip_currency (astype_str (replace_dash c))"


text \<open>
  A parser to compute the examples with.  On the texts of the examples it returns what
  \<open>pd.to_numeric\<close> returns: the numbers 0, 7, 100, 200 and 1234 for their decimal
  numerals, NaN for the empty text and for \<open>n/a\<close>.  The examples hand it no other
  text (lemma \<open>example_texts\<close>); what it returns elsewhere, NaN, says nothing about
  pandas.
\<close>

definition read_sample :: "string \<Rightarrow> number" where
  "read_sample s =
     (case map_of [(''0'', Num 0), (''7'', Num 7), (''100'', Num 100), (''200'', Num 200),
                   (''1234'', Num 1234), ('''', NaN), (''n/a'', NaN)] s of
        Some v \<Rightarrow> v
      | None \<Rightarrow> NaN)"

definition sample_to_numeric :: parser where
  "sample_to_numeric xs = map read_sample xs"

text \<open>
  The table of the specification's end-to-end scenario: one row, labelled
  \<open>Equalization 1\<close>, with \<open>$100\<close> for 2016-17 and a dash for 2017-18.
\<close>

definition scenario_table :: raw_frame where
  "scenario_table =
     \<lparr>rcols = [(''Unnamed: 0'', [Text ''Equalization 1'']),
               (''2016-17'', [Text ''$100'']),
               (''2017-18'', [Text ''-''])]\<rparr>"

text \<open>A table without columns: \<open>clean_table\<close> raises on it.\<close>

definition malformed_table :: raw_frame where
  "malformed_table = \<lparr>rcols = []\<rparr>"

text \<open>
  A table with two rows whose labels are the same after normalization, and a table whose
  labels differ from the component names, and from one another, in case only.
\<close>

definition duplicate_table :: raw_frame where
  "duplicate_table =
     \<lparr>rcols = [(''Unnamed: 0'', [Text ''Equalization 1'', Text ''Canada Health Transfer'', Text ''Equalization 2'']),
               (''2016-17'', [Text ''$100'', Text ''$7'', Text ''$200''])]\<rparr>"

definition case_variant_table :: raw_frame where
  "case_variant_table =
     \<lparr>rcols = [(''Unnamed: 0'', [Text ''EQUALIZATION'', Text ''Equalization'', Text ''canada health transfer'']),
               (''2016-17'', [Text ''$100'', Text ''$200'', Text ''$7''])]\<rparr>"



text \<open>
  A table with two component rows in which one cell is empty and one is the text
  \<open>n/a\<close>.
\<close>

definition gap_table :: raw_frame where
  "gap_table =
     \<lparr>rcols = [(''Unnamed: 0'', [Text ''Canada Health Transfer'', Text ''Equalization 3'']),
               (''2016-17'', [Text ''$1,234'', Text '''']),
               (''2020-21'', [Text ''n/a'', Text ''-''])]\<rparr>"




text \<open>
  The Label Normalizer in the words of the specification: a trailing suffix of
  whitespace followed by digits is removed, then surrounding whitespace is trimmed.
\<close>

definition drop_footnote :: "string \<Rightarrow> string" where
  "drop_footnote s =
     (if s \<noteq> [] \<and> is_digit (last s) then rev (dropWhile is_space (dropWhile is_digit (rev s)))
      else s)"

definition spec_normalize_label :: "string \<Rightarrow> string" where
  "spec_normalize_label s = strip (drop_footnote s)"

text \<open>The string ends with a digit and one newline behind it.\<close>

definition ends_digit_newline :: "string \<Rightarrow> bool" where
  "ends_digit_newline s = (case rev s of n # d # _ \<Rightarrow> n = newline \<and> is_digit d | _ \<Rightarrow> False)"

text \<open>A string that is whitespace followed by at least one digit, and nothing else.\<close>

definition footnote :: "string \<Rightarrow> bool" where
  "footnote zs = (\<exists>w d. zs = w @ d \<and> (\<forall>c \<in> set w. is_space c) \<and> (\<forall>c \<in> set d. is_digit c) \<and> d \<noteq> [])"

text \<open>
  The table that the loop has converted in the columns \<open>P\<close>, and in no other.
\<close>

definition partly :: "parser \<Rightarrow> string set \<Rightarrow> cell frame \<Rightarrow> (cell + number) frame" where
  "partly tn P df =
     \<lparr>findex = findex df,
      fcols = map (\<lambda>(c, xs). (c, if c \<in> P
                                  then map Inr (tn (map (\<lambda>x. strip_currency (astype_str x)) xs))
                                  else map Inl xs)) (fcols df)\<rparr>"

section \<open>The aggregation loop\<close>

lemma update_fresh: "k \<notin> fst ` set al \<Longrightarrow> AList.update k v al = al @ [(k, v)]"
  by (induction al) auto

lemma nth_notin_take: "distinct ns \<Longrightarrow> i < length ns \<Longrightarrow> ns ! i \<notin> set (take i ns)"
  by (metis distinct_take id_take_nth_drop not_distinct_conv_prefix)

text \<open>
  With distinct names every success is appended behind the entries that are there, so
  the dataset lists the successful tables in the order of the input.
\<close>

lemma aggregate_loop_distinct:
  assumes "distinct ns"
  shows "fst ` set (data_dict st) \<subseteq> set (take i ns) \<Longrightarrow>
         data_dict (aggregate_loop tn ns ys cs i tables st) =
         data_dict st @ List.map_filter (stored tn ys cs) (zip (drop i ns) tables)"
proof (induction tables arbitrary: i st)
  case Nil
  then show ?case by simp
next
  case (Cons t tables)
  show ?case
  proof (cases "i < length ns")
    case False
    then have d: "drop i ns = []" "drop (Suc i) ns = []" by simp_all
    have k: "fst ` set (data_dict (aggregate_step tn ns ys cs i t st)) \<subseteq> set (take (Suc i) ns)"
      using Cons.prems False by (auto simp: aggregate_step_def store_result_def split: sum.splits)
    have "data_dict (aggregate_step tn ns ys cs i t st) = data_dict st"
      using False by (auto simp: aggregate_step_def store_result_def split: sum.splits)
    with Cons.IH[OF k] d show ?thesis by simp
  next
    case True
    then have d: "drop i ns = ns ! i # drop (Suc i) ns" by (simp add: Cons_nth_drop_Suc)
    have fresh: "ns ! i \<notin> fst ` set (data_dict st)"
      using Cons.prems nth_notin_take[OF assms True] by blast
    have tk: "set (take (Suc i) ns) = insert (ns ! i) (set (take i ns))"
      using True by (simp add: take_Suc_conv_app_nth)
    show ?thesis
    proof (cases "process_table tn ys cs t")
      case (Inl e)
      then have s: "data_dict (aggregate_step tn ns ys cs i t st) = data_dict st"
        by (simp add: aggregate_step_def store_result_def)
      have k: "fst ` set (data_dict (aggregate_step tn ns ys cs i t st)) \<subseteq> set (take (Suc i) ns)"
        using Cons.prems tk s by auto
      from Cons.IH[OF k] s d Inl show ?thesis
        by (simp add: stored_def)
    next
      case (Inr f)
      then have s: "data_dict (aggregate_step tn ns ys cs i t st) = data_dict st @ [(ns ! i, f)]"
        using True fresh by (simp add: aggregate_step_def store_result_def update_fresh)
      have k: "fst ` set (data_dict (aggregate_step tn ns ys cs i t st)) \<subseteq> set (take (Suc i) ns)"
        using Cons.prems tk s by auto
      from Cons.IH[OF k] s d Inr show ?thesis
        by (simp add: stored_def)
    qed
  qed
qed

lemma aggregate_data_distinct:
  "distinct ns \<Longrightarrow> aggregate_data tn tables ns ys cs = List.map_filter (stored tn ys cs) (zip ns tables)"
  using aggregate_loop_distinct[where ns = ns and st = "\<lparr>data_dict = [], printed = []\<rparr>" and i = 0]
  by (simp add: aggregate_data_def aggregate_run_def)

lemma names_distinct: "distinct (map extract_province_name chart_titles)"
  by code_simp

lemma zip_take_length: "zip xs (take (length xs) ys) = zip xs ys"
proof (induction xs arbitrary: ys)
  case Nil
  then show ?case by simp
next
  case (Cons x xs)
  then show ?case by (cases ys) simp_all
qed

lemma length_map_filter_le: "length (List.map_filter f xs) \<le> length xs"
  by (simp add: List.map_filter_def)

lemma length_chart_titles: "length chart_titles = 14"
  by (simp add: chart_titles_def)

text \<open>
  At start-up the names are the 14 titles' names, which are distinct, and \<open>zip\<close> stops
  at the shorter list: table \<open>i\<close> goes with title \<open>i\<close>, for the first 14 tables.
\<close>

lemma startup_aggregate:
  "startup tn tables =
   aggregate_data tn (take (num_tables tables) tables) (province_names tables) years components"
  by (simp add: startup_def startup_run_def aggregate_data_def)

lemma startup_char:
  "startup tn tables =
   List.map_filter (stored tn years components) (zip (map extract_province_name chart_titles) tables)"
proof -
  let ?n = "min 14 (length tables)"
  let ?ns = "map extract_province_name chart_titles"
  have d: "distinct (take ?n ?ns)" using names_distinct by (rule distinct_take)
  have "startup tn tables = List.map_filter (stored tn years components) (zip (take ?n ?ns) (take ?n tables))"
    unfolding startup_aggregate province_names_def num_tables_def
    using aggregate_data_distinct[OF d] by (simp add: take_map)
  also have "zip (take ?n ?ns) (take ?n tables) = take ?n (zip ?ns tables)"
    by (simp add: take_zip)
  also have "\<dots> = zip ?ns tables"
    by (simp add: length_chart_titles)
  finally show ?thesis .
qed

lemma stored_Some_iff: "stored tn ys cs (n, t) = Some p \<longleftrightarrow> (\<exists>f. process_table tn ys cs t = Inr f \<and> p = (n, f))"
  by (auto simp: stored_def split: sum.splits)

lemma stored_None_iff: "stored tn ys cs (n, t) = None \<longleftrightarrow> (\<exists>e. process_table tn ys cs t = Inl e)"
  by (auto simp: stored_def split: sum.splits)

lemma map_filter_all_Some:
  "(\<And>x. x \<in> set xs \<Longrightarrow> f x \<noteq> None) \<Longrightarrow> length (List.map_filter f xs) = length xs"
  by (induction xs) (auto split: option.splits)

lemma map_filter_append: "List.map_filter f (xs @ ys) = List.map_filter f xs @ List.map_filter f ys"
  by (simp add: List.map_filter_def)

lemma length_map_filter_one_None:
  assumes "i < length xs" "f (xs ! i) = None" "\<And>j. j < length xs \<Longrightarrow> j \<noteq> i \<Longrightarrow> f (xs ! j) \<noteq> None"
  shows "length (List.map_filter f xs) = length xs - 1"
proof -
  have xs: "xs = take i xs @ xs ! i # drop (Suc i) xs"
    using assms(1) by (simp add: id_take_nth_drop)
  have a: "length (List.map_filter f (take i xs)) = length (take i xs)"
  proof (rule map_filter_all_Some)
    fix x assume "x \<in> set (take i xs)"
    then obtain j where "j < i" "j < length xs" "x = xs ! j"
      by (auto simp: in_set_conv_nth)
    with assms(3)[of j] show "f x \<noteq> None" by simp
  qed
  have b: "length (List.map_filter f (drop (Suc i) xs)) = length (drop (Suc i) xs)"
  proof (rule map_filter_all_Some)
    fix x assume "x \<in> set (drop (Suc i) xs)"
    then obtain k where "k < length xs - Suc i" "x = xs ! (Suc i + k)"
      by (auto simp: in_set_conv_nth)
    with assms(3)[of "Suc i + k"] show "f x \<noteq> None" by simp
  qed
  have "List.map_filter f xs =
        List.map_filter f (take i xs) @ List.map_filter f (xs ! i # drop (Suc i) xs)"
    by (subst xs) (simp only: map_filter_append)
  then have "length (List.map_filter f xs) = length (take i xs) + length (drop (Suc i) xs)"
    using a b assms(2) by simp
  with assms(1) show ?thesis by simp
qed

lemma set_map_filter: "set (List.map_filter f xs) = {y. \<exists>x \<in> set xs. f x = Some y}"
  by (induction xs) (auto split: option.splits)

lemma map_fst_map_filter_stored:
  "map fst (List.map_filter (stored tn ys cs) zs) =
   map fst (filter (\<lambda>p. \<not> isl (process_table tn ys cs (snd p))) zs)"
  by (induction zs) (auto simp: stored_def split: sum.splits)

lemma distinct_keys_aggregate:
  assumes "distinct ns"
  shows "distinct (map fst (aggregate_data tn tables ns ys cs))"
proof -
  have "distinct (map fst (zip ns tables))"
    using assms by (simp add: map_fst_zip_take)
  then have "distinct (map fst (filter (\<lambda>p. \<not> isl (process_table tn ys cs (snd p))) (zip ns tables)))"
    by (rule distinct_map_filter)
  then show ?thesis
    by (simp add: aggregate_data_distinct[OF assms] map_fst_map_filter_stored)
qed

lemma in_aggregate_data_iff:
  assumes "distinct ns"
  shows "(n, f) \<in> set (aggregate_data tn tables ns ys cs) \<longleftrightarrow>
         (\<exists>j. j < length ns \<and> j < length tables \<and> n = ns ! j \<and> process_table tn ys cs (tables ! j) = Inr f)"
proof -
  have "(n, f) \<in> set (aggregate_data tn tables ns ys cs) \<longleftrightarrow>
        (\<exists>p \<in> set (zip ns tables). stored tn ys cs p = Some (n, f))"
    by (simp add: aggregate_data_distinct[OF assms] set_map_filter)
  also have "\<dots> \<longleftrightarrow> (\<exists>j. j < length ns \<and> j < length tables \<and> stored tn ys cs (ns ! j, tables ! j) = Some (n, f))"
    by (auto simp: set_zip)
  also have "\<dots> \<longleftrightarrow> (\<exists>j. j < length ns \<and> j < length tables \<and> n = ns ! j \<and> process_table tn ys cs (tables ! j) = Inr f)"
    by (auto simp: stored_Some_iff)
  finally show ?thesis .
qed

lemma set_update_subset: "set (AList.update k v al) \<subseteq> insert (k, v) (set al)"
  by (induction al) auto

lemma aggregate_loop_values:
  "(\<And>n f. (n, f) \<in> set (data_dict st) \<Longrightarrow> \<exists>t. process_table tn ys cs t = Inr f) \<Longrightarrow>
   (n, f) \<in> set (data_dict (aggregate_loop tn ns ys cs i tables st)) \<Longrightarrow>
   \<exists>t. process_table tn ys cs t = Inr f"
proof (induction tables arbitrary: i st)
  case Nil
  then show ?case by simp
next
  case (Cons t tables)
  have "\<And>n f. (n, f) \<in> set (data_dict (aggregate_step tn ns ys cs i t st)) \<Longrightarrow>
          \<exists>t. process_table tn ys cs t = Inr f"
  proof -
    fix n f assume a: "(n, f) \<in> set (data_dict (aggregate_step tn ns ys cs i t st))"
    show "\<exists>t. process_table tn ys cs t = Inr f"
    proof (cases "process_table tn ys cs t")
      case (Inl e)
      with a Cons.prems(1) show ?thesis by (simp add: aggregate_step_def store_result_def)
    next
      case (Inr g)
      show ?thesis
      proof (cases "i < length ns")
        case True
        with a Inr have "(n, f) \<in> insert (ns ! i, g) (set (data_dict st))"
          using set_update_subset[of "ns ! i" g "data_dict st"] by (auto simp: aggregate_step_def store_result_def)
        with Inr Cons.prems(1) show ?thesis by auto
      next
        case False
        with a Inr Cons.prems(1) show ?thesis by (simp add: aggregate_step_def store_result_def)
      qed
    qed
  qed
  from Cons.IH[OF this] Cons.prems(2) show ?case by simp
qed

lemma aggregate_data_values:
  "(n, f) \<in> set (aggregate_data tn tables ns ys cs) \<Longrightarrow> \<exists>t. process_table tn ys cs t = Inr f"
  unfolding aggregate_data_def aggregate_run_def
  by (rule aggregate_loop_values[where st = "\<lparr>data_dict = [], printed = []\<rparr>"]) simp_all

text \<open>
  The printed lines: one for every table whose \<open>try\<close> block raised, in the order of
  the tables, the IndexError of a missing name among them.
\<close>

lemma zip_upt_Cons: "zip [i..<i + length (t # tables)] (t # tables) =
           (i, t) # zip [Suc i..<Suc i + length tables] tables"
proof -
  have "[i..<i + length (t # tables)] = i # [Suc i..<Suc i + length tables]"
    by (simp add: upt_conv_Cons del: upt_Suc)
  then show ?thesis by simp
qed

lemma aggregate_loop_printed:
  "printed (aggregate_loop tn ns ys cs i tables st) =
   printed st @
   List.map_filter
     (\<lambda>p. case process_table tn ys cs (snd p) of
             Inl e \<Rightarrow> Some (fst p, e)
           | Inr f \<Rightarrow> if fst p < length ns then None else Some (fst p, IndexError))
     (zip [i..<i + length tables] tables)"
proof (induction tables arbitrary: i st)
  case Nil
  then show ?case by simp
next
  case (Cons t tables)
  show ?case
    unfolding zip_upt_Cons
    by (simp add: Cons.IH aggregate_step_def store_result_def split: sum.splits)
qed

lemma map_filter_cong_set:
  "(\<And>x. x \<in> set xs \<Longrightarrow> f x = g x) \<Longrightarrow> List.map_filter f xs = List.map_filter g xs"
  by (induction xs) (auto split: option.splits)

lemma aggregate_run_printed:
  assumes "length tables \<le> length ns"
  shows "printed (aggregate_run tn tables ns ys cs) =
         List.map_filter (failure tn ys cs) (zip [0..<length tables] tables)"
proof -
  have "printed (aggregate_run tn tables ns ys cs) =
        List.map_filter
          (\<lambda>p. case process_table tn ys cs (snd p) of
                  Inl e \<Rightarrow> Some (fst p, e)
                | Inr f \<Rightarrow> if fst p < length ns then None else Some (fst p, IndexError))
          (zip [0..<length tables] tables)"
    unfolding aggregate_run_def aggregate_loop_printed by simp
  also have "\<dots> = List.map_filter (failure tn ys cs) (zip [0..<length tables] tables)"
  proof (rule map_filter_cong_set)
    fix p assume "p \<in> set (zip [0..<length tables] tables)"
    then have "(fst p, snd p) \<in> set (zip [0..<length tables] tables)" by simp
    then have "fst p \<in> set [0..<length tables]" by (rule set_zip_leftD)
    then have "fst p < length ns" using assms by simp
    then show "(case process_table tn ys cs (snd p) of
                  Inl e \<Rightarrow> Some (fst p, e)
                | Inr f \<Rightarrow> if fst p < length ns then None else Some (fst p, IndexError)) =
               failure tn ys cs p"
      by (simp add: failure_def split: sum.splits)
  qed
  finally show ?thesis .
qed

lemma zip_upt_take: "zip [0..<min m (length xs)] (take (min m (length xs)) xs) = zip [0..<m] xs"
proof -
  have "zip [0..<m] xs = take (min m (length xs)) (zip [0..<m] xs)"
    by simp
  also have "\<dots> = zip (take (min m (length xs)) [0..<m]) (take (min m (length xs)) xs)"
    by (simp only: take_zip)
  also have "take (min m (length xs)) [0..<m] = [0..<min m (length xs)]"
    by simp
  finally show ?thesis by simp
qed

lemma startup_printed:
  "printed (startup_run tn tables) =
   List.map_filter (failure tn years components) (zip [0..<14] tables)"
proof -
  let ?m = "min 14 (length tables)"
  have "printed (startup_run tn tables) =
        List.map_filter (failure tn years components)
          (zip [0..<length (take ?m tables)] (take ?m tables))"
    unfolding startup_run_def num_tables_def
    by (rule aggregate_run_printed) (simp add: province_names_def num_tables_def length_chart_titles)
  also have "zip [0..<length (take ?m tables)] (take ?m tables) = zip [0..<14] tables"
    using zip_upt_take[of 14 tables] by simp
  finally show ?thesis .
qed

lemma startup_run_take: "startup_run tn tables = startup_run tn (take 14 tables)"
  by (simp add: startup_run_def num_tables_def province_names_def min.commute)

text \<open>Every table that has a name is stored or has its line printed, never both.\<close>

lemma stored_failure_count:
  "length ns = length ks \<Longrightarrow>
   length (List.map_filter (stored tn ys cs) (zip ns xs)) +
   length (List.map_filter (failure tn ys cs) (zip ks xs)) = min (length ns) (length xs)"
proof (induction xs arbitrary: ns ks)
  case Nil
  then show ?case by simp
next
  case (Cons x xs)
  show ?case
  proof (cases ns)
    case Nil
    with Cons.prems show ?thesis by simp
  next
    case n: (Cons n ns')
    with Cons.prems obtain k ks' where k: "ks = k # ks'" and l: "length ns' = length ks'"
      by (cases ks) auto
    from Cons.IH[OF l] show ?thesis
      by (simp add: n k stored_def failure_def split: sum.splits)
  qed
qed

section \<open>The projection\<close>

lemma concat_map_if_Nil:
  "concat (map (\<lambda>x. if Q x then [] else h x) xs) = concat (map h (filter (\<lambda>x. \<not> Q x) xs))"
  by (induction xs) auto

lemma filter_province_rows:
  "filter (\<lambda>row. Component row \<in> set sel) (province_rows year item) =
   map (\<lambda>comp. \<lparr>Province = fst item, Component = comp,
                  Value = (case frame_at (snd item) comp year of Inr v \<Rightarrow> v | Inl e \<Rightarrow> Num 0)\<rparr>)
       (filter (\<lambda>comp. comp \<in> set sel) components)"
  by (simp add: province_rows_def filter_map comp_def)

lemma reindex_columns_columns: "reindex_columns ys df = Inr T \<Longrightarrow> fcolumns T = ys"
  by (auto simp: reindex_columns_def fcolumns_def comp_def split: if_splits option.splits intro!: map_idI)

lemma process_table_columns: "process_table tn ys cs t = Inr T \<Longrightarrow> fcolumns T = ys"
  by (auto simp: process_table_def split: sum.splits dest: reindex_columns_columns)

lemma frame_at_no_column: "c \<notin> set (fcolumns df) \<Longrightarrow> frame_at df r c = Inl KeyError"
  by (simp add: frame_at_def fcolumns_def map_of_eq_None_iff[THEN iffD2])

lemma components_nonempty: "components \<noteq> []"
  by (simp add: components_def)

lemma build_long_empty_iff:
  "build_long_dataframe dd year inc = [] \<longleftrightarrow>
   filter (\<lambda>item. inc \<or> lower (fst item) \<noteq> ''aggregate'') dd = []"
proof -
  have "build_long_dataframe dd year inc =
        concat (map (province_rows year) (filter (\<lambda>item. \<not> (\<not> inc \<and> lower (fst item) = ''aggregate'')) dd))"
    unfolding build_long_dataframe_def by (rule concat_map_if_Nil)
  moreover have "province_rows year item \<noteq> []" for item
    by (simp add: province_rows_def components_nonempty)
  ultimately show ?thesis
    by (auto simp: filter_empty_conv)
qed

section \<open>What the cleaned table holds\<close>




section \<open>Selecting and reindexing\<close>














lemma keep_map: "keep (map P xs) xs = filter P xs"
  by (induction xs) (auto simp: keep_def)

lemma findex_select_components:
  "findex (select_components cs df) = filter (\<lambda>l. lower l \<in> set (map lower cs)) (findex df)"
  by (simp add: select_components_def Let_def keep_map)


lemma filter_not_distinct:
  assumes "i < j" "j < length xs" "xs ! i = xs ! j" "P (xs ! i)"
  shows "\<not> distinct (filter P xs)"
proof -
  have xs: "xs = take j xs @ xs ! j # drop (Suc j) xs"
    using assms(2) by (simp add: id_take_nth_drop)
  have "xs ! i \<in> set (take j xs)"
    using assms(1,2) by (auto simp: in_set_conv_nth intro!: exI[of _ i])
  then have "xs ! j \<in> set (filter P (take j xs))"
    using assms(3,4) by simp
  moreover have "filter P xs = filter P (take j xs) @ xs ! j # filter P (drop (Suc j) xs)"
    using assms(3,4) by (subst xs) simp
  ultimately show ?thesis by simp
qed

lemma components_distinct: "distinct components"
  by (simp add: components_def)

lemma duplicate_labels_raise:
  assumes "i < j" "j < length (findex D)" "findex D ! i = findex D ! j"
    and "lower (findex D ! i) \<in> set (map lower components)"
  shows "reindex_rows components (select_components components D) = Inl ValueError"
proof -
  have nd: "\<not> distinct (findex (select_components components D))"
    unfolding findex_select_components
    using assms by (intro filter_not_distinct[where i = i and j = j]) simp_all
  then have "findex (select_components components D) \<noteq> components"
    using components_distinct by auto
  with nd show ?thesis by (simp add: reindex_rows_def)
qed

section \<open>The cells of the table that is stored\<close>






section \<open>Single cells, and what can raise\<close>





section \<open>What the substitution removes\<close>

lemma space_newline: "is_space newline"
  by (simp add: is_space_def newline_def)

lemma not_digit_newline: "\<not> is_digit newline"
  by (simp add: is_digit_def newline_def)

lemma digit_not_space: "is_digit c \<Longrightarrow> \<not> is_space c"
  by (auto simp: is_digit_def is_space_def)

lemma dropWhile_none: "(\<And>c. c \<in> set xs \<Longrightarrow> \<not> P c) \<Longrightarrow> dropWhile P xs = xs"
  by (cases xs) auto

lemma footnote_match:
  assumes "footnote m"
  shows "match_here m = Some []" and "match_here (m @ [newline]) = Some [newline]"
proof -
  from assms obtain w d where m: "m = w @ d" and w: "\<forall>c \<in> set w. is_space c"
    and d: "\<forall>c \<in> set d. is_digit c" and ne: "d \<noteq> []"
    by (auto simp: footnote_def)
  have d1: "dropWhile is_space (d @ r) = d @ r" for r
    using d ne by (cases d) (auto dest: digit_not_space)
  have w1: "dropWhile is_space (w @ d @ r) = d @ r" for r
  proof -
    have "dropWhile is_space (w @ d @ r) = dropWhile is_space (d @ r)"
      by (rule dropWhile_append2) (use w in auto)
    then show ?thesis by (simp only: d1)
  qed
  have t0: "takeWhile is_digit d = d" using d by simp
  have r0: "dropWhile is_digit d = []" using d by simp
  have e0: "dropWhile is_space (w @ d) = d" using w1[of "[]"] by simp
  show "match_here m = Some []"
    unfolding match_here_def Let_def m e0 t0 r0 using ne by simp
  have t1: "takeWhile is_digit (d @ [newline]) = d"
    using d by (simp add: takeWhile_append2 not_digit_newline)
  have r1: "dropWhile is_digit (d @ [newline]) = [newline]"
  proof -
    have "dropWhile is_digit (d @ [newline]) = dropWhile is_digit [newline]"
      by (rule dropWhile_append2) (use d in auto)
    then show ?thesis by (simp add: not_digit_newline)
  qed
  have e1: "dropWhile is_space ((w @ d) @ [newline]) = d @ [newline]"
    using w1[of "[newline]"] by simp
  show "match_here (m @ [newline]) = Some [newline]"
    unfolding match_here_def Let_def m e1 t1 r1 using ne by simp
qed

lemma match_footnote:
  assumes "match_here zs = Some rest"
  shows "\<exists>m. zs = m @ rest \<and> footnote m \<and> (rest = [] \<or> rest = [newline])"
proof -
  let ?w = "takeWhile is_space zs"
  let ?r = "dropWhile is_space zs"
  let ?d = "takeWhile is_digit ?r"
  from assms have ne: "?d \<noteq> []" and rest: "rest = dropWhile is_digit ?r"
    and rr: "rest = [] \<or> rest = [newline]"
    by (auto simp: match_here_def Let_def split: if_splits)
  have "zs = ?w @ ?d @ rest"
    unfolding rest by (metis takeWhile_dropWhile_id)
  moreover have "footnote (?w @ ?d)"
    unfolding footnote_def using ne
    by (intro exI[of _ ?w] exI[of _ ?d]) (auto dest: set_takeWhileD)
  ultimately show ?thesis using rr by (intro exI[of _ "?w @ ?d"]) simp
qed

lemma footnote_drop:
  assumes "footnote m"
  shows "drop_footnote m = []" and "m \<noteq> []" and "is_digit (last m)"
proof -
  from assms obtain w d where m: "m = w @ d" and w: "\<forall>c \<in> set w. is_space c"
    and d: "\<forall>c \<in> set d. is_digit c" and ne: "d \<noteq> []"
    by (auto simp: footnote_def)
  show "m \<noteq> []" using ne m by simp
  show l: "is_digit (last m)" using ne d m by simp
  have "dropWhile is_digit (rev d @ rev w) = dropWhile is_digit (rev w)"
    by (rule dropWhile_append2) (use d in auto)
  also have "\<dots> = rev w"
    using w by (intro dropWhile_none) (auto dest: digit_not_space)
  finally have "dropWhile is_space (dropWhile is_digit (rev m)) = []"
    using w by (simp add: m)
  with l ne m show "drop_footnote m = []"
    by (simp add: drop_footnote_def)
qed

lemma drop_footnote_Cons:
  assumes "\<not> footnote (x # ys)"
  shows "drop_footnote (x # ys) = x # drop_footnote ys"
proof (cases "ys \<noteq> [] \<and> is_digit (last ys)")
  case False
  show ?thesis
  proof (cases "ys = []")
    case True
    have "\<not> is_digit x"
    proof
      assume "is_digit x"
      then have "footnote [x]"
        unfolding footnote_def by (intro exI[of _ "[]"] exI[of _ "[x]"]) simp
      with assms True show False by simp
    qed
    with True show ?thesis by (simp add: drop_footnote_def)
  next
    case ne: False
    with False show ?thesis by (simp add: drop_footnote_def)
  qed
next
  case True
  let ?T = "takeWhile is_digit (rev ys)"
  let ?A = "dropWhile is_digit (rev ys)"
  let ?B = "dropWhile is_space ?A"
  have ys: "ys = rev ?A @ rev ?T"
    by (metis rev_append rev_rev_ident takeWhile_dropWhile_id)
  have Tne: "rev ?T \<noteq> []"
    using True by (cases "rev ys") (auto simp: last_rev[symmetric] hd_rev simp del: last_rev)
  have Tdig: "\<forall>c \<in> set (rev ?T). is_digit c"
    by (auto dest: set_takeWhileD)
  have lhs: "drop_footnote (x # ys) = rev (dropWhile is_space (dropWhile is_digit (rev ys @ [x])))"
    using True by (simp add: drop_footnote_def)
  have rhs: "drop_footnote ys = rev ?B"
    using True by (simp add: drop_footnote_def)
  show ?thesis
  proof (cases "?A = []")
    case A: True
    then have all: "\<forall>c \<in> set ys. is_digit c"
      by (simp add: dropWhile_eq_Nil_conv)
    have nd: "\<not> is_digit x"
    proof
      assume "is_digit x"
      with all have "footnote (x # ys)"
        unfolding footnote_def by (intro exI[of _ "[]"] exI[of _ "x # ys"]) simp
      with assms show False by simp
    qed
    have ns: "\<not> is_space x"
    proof
      assume "is_space x"
      with all True have "footnote (x # ys)"
        unfolding footnote_def by (intro exI[of _ "[x]"] exI[of _ ys]) simp
      with assms show False by simp
    qed
    have "dropWhile is_digit (rev ys @ [x]) = dropWhile is_digit [x]"
      by (rule dropWhile_append2) (use all in auto)
    with nd ns show ?thesis by (simp add: lhs rhs A)
  next
    case A: False
    have "hd ?A \<in> set ?A" using A by (rule hd_in_set)
    then have "hd ?A \<in> set (rev ys)" by (rule set_dropWhileD)
    moreover have "\<not> is_digit (hd ?A)" using A by (rule hd_dropWhile)
    ultimately have dA: "dropWhile is_digit (rev ys @ [x]) = ?A @ [x]"
      by (rule dropWhile_append1)
    show ?thesis
    proof (cases "?B = []")
      case B: True
      then have Asp: "\<forall>c \<in> set (rev ?A). is_space c"
        by (simp add: dropWhile_eq_Nil_conv)
      have ns: "\<not> is_space x"
      proof
        assume "is_space x"
        with Asp Tdig Tne have "footnote (x # rev ?A @ rev ?T)"
          unfolding footnote_def by (intro exI[of _ "x # rev ?A"] exI[of _ "rev ?T"]) simp
        with assms ys show False by simp
      qed
      have "dropWhile is_space (?A @ [x]) = dropWhile is_space [x]"
        by (rule dropWhile_append2) (use Asp in auto)
      with ns show ?thesis by (simp add: lhs rhs dA B)
    next
      case B: False
      have "hd ?B \<in> set ?B" using B by (rule hd_in_set)
      then have "hd ?B \<in> set ?A" by (rule set_dropWhileD)
      moreover have "\<not> is_space (hd ?B)" using B by (rule hd_dropWhile)
      ultimately have "dropWhile is_space (?A @ [x]) = ?B @ [x]"
        by (rule dropWhile_append1)
      then show ?thesis by (simp add: lhs rhs dA)
    qed
  qed
qed

lemma ends_digit_newline_iff:
  "ends_digit_newline s \<longleftrightarrow> (\<exists>m. s = m @ [newline] \<and> m \<noteq> [] \<and> is_digit (last m))"
proof
  assume "ends_digit_newline s"
  then obtain d r where r: "rev s = newline # d # r" and d: "is_digit d"
    by (auto simp: ends_digit_newline_def split: list.splits)
  then have "s = rev (d # r) @ [newline]"
    by (metis rev.simps(2) rev_rev_ident)
  with d show "\<exists>m. s = m @ [newline] \<and> m \<noteq> [] \<and> is_digit (last m)"
    by (intro exI[of _ "rev (d # r)"]) simp
next
  assume "\<exists>m. s = m @ [newline] \<and> m \<noteq> [] \<and> is_digit (last m)"
  then obtain m where m: "s = m @ [newline]" "m \<noteq> []" "is_digit (last m)" by blast
  then obtain d r where "rev m = d # r" by (cases "rev m") auto
  with m show "ends_digit_newline s"
    by (simp add: ends_digit_newline_def last_rev[symmetric] del: last_rev)
qed

lemma re_sub_Nil: "re_sub_trailing [] = []"
  by (subst re_sub_trailing.simps) (simp add: match_here_def)

lemma re_sub_newline: "re_sub_trailing [newline] = [newline]"
  by (subst re_sub_trailing.simps) (simp add: match_here_def space_newline re_sub_Nil)

lemma re_sub_trailing_char:
  "re_sub_trailing s =
     (if ends_digit_newline s then drop_footnote (butlast s) @ [newline] else drop_footnote s)"
proof (induction s rule: re_sub_trailing.induct)
  case (1 xs)
  show ?case
  proof (cases "match_here xs")
    case (Some rest)
    then obtain m where m: "xs = m @ rest" "footnote m" "rest = [] \<or> rest = [newline]"
      using match_footnote by blast
    have step: "re_sub_trailing xs = re_sub_trailing rest"
      by (subst re_sub_trailing.simps) (simp add: Some)
    from m(3) show ?thesis
    proof
      assume r: "rest = []"
      have "\<not> ends_digit_newline m"
        using footnote_drop(3)[OF m(2)] not_digit_newline
        by (auto simp: ends_digit_newline_iff)
      with r m step show ?thesis
        by (simp add: re_sub_Nil footnote_drop(1))
    next
      assume r: "rest = [newline]"
      have "ends_digit_newline (m @ [newline])"
        using footnote_drop(2,3)[OF m(2)] by (auto simp: ends_digit_newline_iff)
      with r m step show ?thesis
        by (simp add: re_sub_newline footnote_drop(1))
    qed
  next
    case None
    show ?thesis
    proof (cases xs)
      case Nil
      then show ?thesis
        by (simp add: re_sub_Nil ends_digit_newline_def drop_footnote_def)
    next
      case (Cons x xs')
      have step: "re_sub_trailing xs = x # re_sub_trailing xs'"
        using None by (subst re_sub_trailing.simps) (simp add: Cons)
      have IH: "re_sub_trailing xs' =
         (if ends_digit_newline xs' then drop_footnote (butlast xs') @ [newline] else drop_footnote xs')"
        using "1.IH"(1)[OF None Cons] .
      have nf: "\<not> footnote m" if "xs = m \<or> xs = m @ [newline]" for m
        using that None footnote_match[of m] by auto
      show ?thesis
      proof (cases "ends_digit_newline xs")
        case True
        then obtain m where m: "xs = m @ [newline]" "m \<noteq> []" "is_digit (last m)"
          by (auto simp: ends_digit_newline_iff)
        with Cons obtain m' where m': "m = x # m'" "xs' = m' @ [newline]"
          by (cases m) auto
        have nfm: "\<not> footnote (x # m')" using nf[of m] m(1) m'(1) by simp
        have "m' \<noteq> []"
        proof
          assume "m' = []"
          with m(3) m'(1) have "footnote (x # m')"
            unfolding footnote_def by (intro exI[of _ "[]"] exI[of _ "[x]"]) simp
          with nfm show False by simp
        qed
        with m(3) m'(1) have e': "ends_digit_newline xs'"
          by (auto simp: ends_digit_newline_iff m'(2))
        from True step IH e' show ?thesis
          by (simp add: m(1) m' drop_footnote_Cons[OF nfm])
      next
        case False
        have nfx: "\<not> footnote (x # xs')" using nf[of xs] Cons by simp
        have "\<not> ends_digit_newline xs'"
        proof
          assume "ends_digit_newline xs'"
          then obtain m where "xs' = m @ [newline]" "m \<noteq> []" "is_digit (last m)"
            by (auto simp: ends_digit_newline_iff)
          then have "ends_digit_newline (x # xs')"
            unfolding ends_digit_newline_iff by (intro exI[of _ "x # m"]) simp
          with False Cons show False by simp
        qed
        with False step IH show ?thesis
          by (simp add: Cons drop_footnote_Cons[OF nfx])
      qed
    qed
  qed
qed

lemma strip_snoc_space:
  assumes "is_space c"
  shows "strip (x @ [c]) = strip x"
proof (cases "dropWhile is_space x = []")
  case True
  then have "\<forall>a \<in> set x. is_space a" by (simp add: dropWhile_eq_Nil_conv)
  then have "dropWhile is_space (x @ [c]) = []"
    using assms by (simp add: dropWhile_eq_Nil_conv)
  then show ?thesis by (simp add: strip_def True)
next
  case False
  have "hd (dropWhile is_space x) \<in> set (dropWhile is_space x)" using False by (rule hd_in_set)
  then have "hd (dropWhile is_space x) \<in> set x" by (rule set_dropWhileD)
  moreover have "\<not> is_space (hd (dropWhile is_space x))" using False by (rule hd_dropWhile)
  ultimately have "dropWhile is_space (x @ [c]) = dropWhile is_space x @ [c]"
    by (rule dropWhile_append1)
  then show ?thesis using assms by (simp add: strip_def)
qed

lemma normalize_label_char:
  "normalize_label s = spec_normalize_label (if ends_digit_newline s then butlast s else s)"
  by (simp add: normalize_label_def spec_normalize_label_def re_sub_trailing_char
      strip_snoc_space[OF space_newline])

section \<open>The objects and the values agree\<close>

lemma partly_empty: "partly tn {} df = object_cells df"
  by (simp add: partly_def object_cells_def)

lemma fcolumns_partly: "fcolumns (partly tn P df) = fcolumns df"
  by (simp add: partly_def fcolumns_def comp_def case_prod_beta)

lemma convert_cells_objects:
  "convert_cells tn (map Inl xs) = map Inr (tn (map (\<lambda>x. strip_currency (astype_str x)) xs))"
  by (simp add: convert_cells_def list_all_iff comp_def)

lemma convert_column_partly:
  "col \<notin> P \<Longrightarrow> convert_column tn col (partly tn P df) = partly tn (insert col P) df"
  by (auto simp: convert_column_def partly_def convert_cells_objects)

lemma replace_object_cells:
  "(object_cells df)\<lparr>fcols := map (\<lambda>(c, xs). (c, map (map_sum replace_dash id) xs)) (fcols (object_cells df))\<rparr>
   = object_cells (replace_all df)"
  by (simp add: object_cells_def replace_all_def comp_def case_prod_beta)

lemma numbers_of_partly:
  "numbers_of (partly tn (set (fcolumns df)) df) =
   Some \<lparr>findex = findex df,
         fcols = map (\<lambda>(c, xs). (c, tn (map (\<lambda>x. strip_currency (astype_str x)) xs))) (fcols df)\<rparr>"
proof -
  have in_cols: "fst p \<in> set (fcolumns df)" if "p \<in> set (fcols df)" for p
    using that by (simp add: fcolumns_def)
  have e: "fcols (partly tn (set (fcolumns df)) df) =
           map (\<lambda>p. (fst p, map Inr (tn (map (\<lambda>x. strip_currency (astype_str x)) (snd p))))) (fcols df)"
    unfolding partly_def by (simp add: case_prod_beta in_cols cong: map_cong)
  show ?thesis
    unfolding numbers_of_def e
    by (simp add: partly_def list_all_iff comp_def case_prod_beta)
qed

lemma distinct_count_1: "distinct xs \<longleftrightarrow> (\<forall>x \<in> set xs. count_list xs x = 1)"
proof (induction xs)
  case Nil
  then show ?case by simp
next
  case (Cons y ys)
  show ?case
  proof
    assume d: "distinct (y # ys)"
    then have "\<forall>x \<in> set ys. count_list ys x = 1" using Cons by simp
    with d show "\<forall>x \<in> set (y # ys). count_list (y # ys) x = 1" by auto
  next
    assume c: "\<forall>x \<in> set (y # ys). count_list (y # ys) x = 1"
    then have y: "y \<notin> set ys" by (simp add: count_list_0_iff)
    have "count_list ys x = 1" if "x \<in> set ys" for x
      using c that y by (cases "x = y") auto
    with y Cons show "distinct (y # ys)" by simp
  qed
qed

lemma count_1_notin_prefix:
  assumes "count_list (pre @ col # cs) col = 1"
  shows "col \<notin> set pre"
proof -
  from assms have "count_list pre col = 0" by simp
  then show ?thesis by (simp add: count_list_0_iff)
qed

lemma to_numeric_loop_partly:
  assumes "a < length s" "s ! a = Tbl (partly tn (set pre) df)" "fcolumns df = pre @ cs"
  shows "\<exists>s'. to_numeric_loop tn cs a s =
              (if \<forall>col \<in> set cs. count_list (fcolumns df) col = 1 then Inr () else Inl AttributeError, s')
            \<and> length s' = length s \<and> (\<forall>b. b \<noteq> a \<longrightarrow> s' ! b = s ! b)
            \<and> ((\<forall>col \<in> set cs. count_list (fcolumns df) col = 1) \<longrightarrow>
                 s' ! a = Tbl (partly tn (set (pre @ cs)) df))"
  using assms
proof (induction cs arbitrary: pre s)
  case Nil
  then show ?case by simp
next
  case (Cons col cs)
  have l: "lookup s a = Some (Tbl (partly tn (set pre) df))"
    using Cons.prems by (simp add: lookup_def)
  show ?case
  proof (cases "count_list (fcolumns df) col = 1")
    case False
    then show ?thesis by (simp add: l fcolumns_partly)
  next
    case True
    then have fresh: "col \<notin> set pre"
      using Cons.prems(3) count_1_notin_prefix by metis
    let ?s1 = "s[a := Tbl (convert_column tn col (partly tn (set pre) df))]"
    have p1: "a < length ?s1" using Cons.prems by simp
    have p2: "?s1 ! a = Tbl (partly tn (set (pre @ [col])) df)"
      using Cons.prems fresh by (simp add: convert_column_partly)
    have p3: "fcolumns df = (pre @ [col]) @ cs"
      using Cons.prems(3) by simp
    from Cons.IH[OF p1 p2 p3] obtain s' where s':
      "to_numeric_loop tn cs a ?s1 =
         (if \<forall>col \<in> set cs. count_list (fcolumns df) col = 1 then Inr () else Inl AttributeError, s')"
      "length s' = length ?s1" "\<forall>b. b \<noteq> a \<longrightarrow> s' ! b = ?s1 ! b"
      "(\<forall>col \<in> set cs. count_list (fcolumns df) col = 1) \<longrightarrow>
         s' ! a = Tbl (partly tn (set ((pre @ [col]) @ cs)) df)"
      by blast
    have step: "to_numeric_loop tn (col # cs) a s = to_numeric_loop tn cs a ?s1"
      using True by (simp add: l fcolumns_partly)
    show ?thesis
      using s' True unfolding step by (intro exI[of _ s']) auto
  qed
qed

lemma fcolumns_object_cells: "fcolumns (object_cells df) = fcolumns df"
  by (simp add: object_cells_def fcolumns_def comp_def case_prod_beta)

lemma take_unchanged:
  assumes "length s \<le> length s'" "\<And>b. b < length s \<Longrightarrow> s' ! b = s ! b"
  shows "take (length s) s' = s"
  using assms by (intro nth_equalityI) auto

lemma clean_table_st_value:
  assumes "lookup s a = Some (Raw f)"
  shows "\<exists>s'. clean_table_st tn a s = (clean_table tn f, s') \<and> take (length s) s' = s"
proof (cases "rename_first f")
  case (Inl e)
  with assms show ?thesis
    by (simp add: clean_table_st_def then_do_def rename_st_def clean_table_def)
next
  case r1: (Inr df1)
  let ?s1 = "s @ [Raw df1]"
  have st1: "rename_st a s = (Inr (length s), ?s1)"
    using assms r1 by (simp add: rename_st_def new_obj_def)
  have l1: "lookup ?s1 (length s) = Some (Raw df1)"
    by (simp add: lookup_def)
  show ?thesis
  proof (cases "set_component df1")
    case (Inl e)
    then have "set_component_st (length s) ?s1 = (Inl e, ?s1)"
      using l1 by (simp add: set_component_st_def)
    then have "clean_table_st tn a s = (Inl e, ?s1)"
      using st1 by (simp add: clean_table_st_def then_do_def)
    moreover have "clean_table tn f = Inl e"
      using r1 Inl by (simp add: clean_table_def)
    ultimately show ?thesis by simp
  next
    case r2: (Inr df2)
    let ?X = "replace_all (set_index df2)"
    let ?s2 = "s @ [Raw df2]"
    let ?s3 = "s @ [Raw df2, Tbl (object_cells (set_index df2))]"
    let ?s4 = "s @ [Raw df2, Tbl (object_cells (set_index df2)), Tbl (object_cells ?X)]"
    let ?a3 = "Suc (Suc (length s))"
    have st2: "set_component_st (length s) ?s1 = (Inr (), ?s2)"
      using l1 r2 by (simp add: set_component_st_def)
    have st3: "set_index_st (length s) ?s2 = (Inr (Suc (length s)), ?s3)"
      by (simp add: set_index_st_def lookup_def new_obj_def)
    have st4: "replace_st (Suc (length s)) ?s3 = (Inr ?a3, ?s4)"
      by (simp add: replace_st_def lookup_def new_obj_def nth_append replace_object_cells)
    have l4: "?a3 < length ?s4" "?s4 ! ?a3 = Tbl (partly tn (set []) ?X)"
      by (simp_all add: nth_append partly_empty)
    have l5: "fcolumns ?X = [] @ fcolumns ?X"
      by simp
    have st5: "columns_st ?a3 ?s4 = (Inr (fcolumns ?X), ?s4)"
      by (simp add: columns_st_def lookup_def nth_append fcolumns_object_cells)
    from to_numeric_loop_partly[OF l4 l5] obtain s5 where s5:
      "to_numeric_loop tn (fcolumns ?X) ?a3 ?s4 =
         (if \<forall>col \<in> set (fcolumns ?X). count_list (fcolumns ?X) col = 1 then Inr ()
          else Inl AttributeError, s5)"
      "length s5 = length ?s4" "\<forall>b. b \<noteq> ?a3 \<longrightarrow> s5 ! b = ?s4 ! b"
      "(\<forall>col \<in> set (fcolumns ?X). count_list (fcolumns ?X) col = 1) \<longrightarrow>
         s5 ! ?a3 = Tbl (partly tn (set ([] @ fcolumns ?X)) ?X)"
      by blast
    have tk: "take (length s) s5 = s"
    proof (rule take_unchanged)
      show "length s \<le> length s5" using s5(2) by simp
      fix b assume "b < length s"
      then show "s5 ! b = s ! b" using s5(3) by (simp add: nth_append)
    qed
    have ct: "clean_table tn f = to_numeric_columns tn ?X"
      using r1 r2 by (simp add: clean_table_def)
    have chain: "clean_table_st tn a s =
        then_do (to_numeric_loop tn (fcolumns ?X) ?a3) (\<lambda>u. return_st ?a3) ?s4"
      using st1 st2 st3 st4 st5 by (simp add: clean_table_st_def then_do_def)
    show ?thesis
    proof (cases "distinct (fcolumns ?X)")
      case False
      then have nu: "(\<forall>col \<in> set (fcolumns ?X). count_list (fcolumns ?X) col = 1) = False"
        using distinct_count_1[of "fcolumns ?X"] by blast
      have lp: "to_numeric_loop tn (fcolumns ?X) ?a3 ?s4 = (Inl AttributeError, s5)"
        using s5(1) unfolding nu by (simp only: if_False)
      have "clean_table_st tn a s = (Inl AttributeError, s5)"
        unfolding chain by (simp add: then_do_def lp)
      moreover have "clean_table tn f = Inl AttributeError"
        using False by (simp add: ct to_numeric_columns_def)
      ultimately show ?thesis using tk by simp
    next
      case True
      then have u: "(\<forall>col \<in> set (fcolumns ?X). count_list (fcolumns ?X) col = 1) = True"
        using distinct_count_1[of "fcolumns ?X"] by blast
      have lp: "to_numeric_loop tn (fcolumns ?X) ?a3 ?s4 = (Inr (), s5)"
        using s5(1) unfolding u by (simp only: if_True)
      have obj: "s5 ! ?a3 = Tbl (partly tn (set (fcolumns ?X)) ?X)"
        using s5(4) unfolding u by simp
      have "lookup s5 ?a3 = Some (Tbl (partly tn (set (fcolumns ?X)) ?X))"
        using obj s5(2) by (simp add: lookup_def)
      then have "return_st ?a3 s5 = (to_numeric_columns tn ?X, s5)"
        using True by (simp add: return_st_def numbers_of_partly to_numeric_columns_def)
      then have "clean_table_st tn a s = (to_numeric_columns tn ?X, s5)"
        unfolding chain by (simp add: then_do_def lp)
      with ct tk show ?thesis by simp
    qed
  qed
qed

lemma take_length_le:
  assumes "take (length s) s' = s"
  shows "length s \<le> length s'"
proof (rule ccontr)
  assume "\<not> length s \<le> length s'"
  then have "take (length s) s' = s'" by simp
  with assms have "s' = s" by simp
  with \<open>\<not> length s \<le> length s'\<close> show False by simp
qed

lemma lookup_take:
  assumes "take (length s) s' = s" "lookup s a = Some x"
  shows "lookup s' a = Some x"
proof -
  from assms(2) have a: "a < length s" and x: "s ! a = x"
    by (auto simp: lookup_def split: if_splits)
  have "length s \<le> length s'"
    using assms(1) by (rule take_length_le)
  moreover have "s' ! a = s ! a"
    using a assms(1) by (metis nth_take)
  ultimately show ?thesis using a x by (simp add: lookup_def)
qed

lemma take_trans:
  assumes "take (length s) s1 = s" "take (length s1) s2 = s1"
  shows "take (length s) s2 = s"
proof -
  have "length s \<le> length s1"
    using assms(1) by (rule take_length_le)
  then have "take (length s) s2 = take (length s) (take (length s1) s2)"
    by (simp add: min_absorb1)
  with assms show ?thesis by simp
qed

lemma process_table_st_value:
  assumes "lookup s a = Some (Raw f)"
  shows "\<exists>s'. process_table_st tn ys cs a s = (process_table tn ys cs f, s') \<and> take (length s) s' = s"
proof -
  from clean_table_st_value[OF assms] obtain s' where
    s': "clean_table_st tn a s = (clean_table tn f, s')" "take (length s) s' = s"
    by blast
  then have "process_table_st tn ys cs a s = (process_table tn ys cs f, s')"
    by (simp add: process_table_st_def process_table_def then_do_def split: sum.splits)
  with s'(2) show ?thesis by blast
qed

lemma aggregate_loop_st_value:
  assumes "map (lookup s) tables = map (\<lambda>f. Some (Raw f)) fs"
  shows "\<exists>s'. aggregate_loop_st tn ns ys cs i tables (st, s) = (aggregate_loop tn ns ys cs i fs st, s')
              \<and> take (length s) s' = s"
  using assms
proof (induction tables arbitrary: fs i st s)
  case Nil
  then show ?case by simp
next
  case (Cons a tables)
  then obtain f fs' where fs: "fs = f # fs'" and a: "lookup s a = Some (Raw f)"
    and rest: "map (lookup s) tables = map (\<lambda>f. Some (Raw f)) fs'"
    by (cases fs) auto
  from process_table_st_value[OF a] obtain s1 where
    s1: "process_table_st tn ys cs a s = (process_table tn ys cs f, s1)" "take (length s) s1 = s"
    by blast
  have "map (lookup s1) tables = map (lookup s) tables"
  proof (rule map_cong[OF refl])
    fix b assume "b \<in> set tables"
    then have "lookup s b \<in> set (map (lookup s) tables)" by simp
    then obtain g where "lookup s b = Some (Raw g)" unfolding rest by auto
    then show "lookup s1 b = lookup s b"
      using lookup_take[OF s1(2)] by simp
  qed
  with rest have rest1: "map (lookup s1) tables = map (\<lambda>f. Some (Raw f)) fs'" by simp
  from Cons.IH[OF rest1, where i = "Suc i" and st = "store_result ns i (process_table tn ys cs f) st"]
  obtain s' where s':
    "aggregate_loop_st tn ns ys cs (Suc i) tables (store_result ns i (process_table tn ys cs f) st, s1) =
       (aggregate_loop tn ns ys cs (Suc i) fs' (store_result ns i (process_table tn ys cs f) st), s')"
    "take (length s1) s' = s1"
    by blast
  have "aggregate_loop_st tn ns ys cs i (a # tables) (st, s) =
        (aggregate_loop tn ns ys cs i fs st, s')"
    using s1(1) s'(1) by (simp add: fs aggregate_step_def)
  moreover have "take (length s) s' = s"
    using s1(2) s'(2) by (rule take_trans)
  ultimately show ?case by blast
qed

lemma aggregate_data_st_value:
  assumes "map (lookup s) tables = map (\<lambda>f. Some (Raw f)) fs"
  shows "\<exists>s'. aggregate_data_st tn tables ns ys cs s = (aggregate_data tn fs ns ys cs, s')
              \<and> take (length s) s' = s"
proof -
  from aggregate_loop_st_value[OF assms, where i = 0 and st = "\<lparr>data_dict = [], printed = []\<rparr>"]
  obtain s' where
    "aggregate_loop_st tn ns ys cs 0 tables (\<lparr>data_dict = [], printed = []\<rparr>, s) =
       (aggregate_loop tn ns ys cs 0 fs \<lparr>data_dict = [], printed = []\<rparr>, s')"
    "take (length s) s' = s"
    by blast
  then show ?thesis
    by (simp add: aggregate_data_st_def aggregate_data_def aggregate_run_def)
qed

lemma map_lookup_take:
  assumes "take (length s) s' = s" "map (lookup s) tables = map (\<lambda>f. Some (Raw f)) fs"
  shows "map (lookup s') tables = map (\<lambda>f. Some (Raw f)) fs"
proof -
  have "map (lookup s') tables = map (lookup s) tables"
  proof (rule map_cong[OF refl])
    fix b assume "b \<in> set tables"
    then have "lookup s b \<in> set (map (lookup s) tables)" by simp
    then obtain g where "lookup s b = Some (Raw g)" unfolding assms(2) by auto
    then show "lookup s' b = lookup s b"
      using lookup_take[OF assms(1)] by simp
  qed
  with assms(2) show ?thesis by simp
qed

section \<open>The specification's end-to-end scenario\<close>

text \<open>
  Two tables, titled for all provinces and territories and for Ontario, each with the
  row \<open>Equalization 1\<close>: the projection of Equalization is 0 for 2017-18, where the
  source has a dash, and 100 for 2016-17.
\<close>

lemma scenario_projection:
  "extract_province_name ''Federal Support to Provinces and Territories'' = ''Aggregate''
   \<and> extract_province_name ''Federal Support to Ontario'' = ''Ontario''
   \<and> update_graph (aggregate_data sample_to_numeric [scenario_table, scenario_table] [''Aggregate'', ''Ontario''] years components)
        ''2017-18'' [''Equalization''] (Some [''include'']) =
       Inr [\<lparr>Province = ''Aggregate'', Component = ''Equalization'', Value = Num 0\<rparr>,
            \<lparr>Province = ''Ontario'', Component = ''Equalization'', Value = Num 0\<rparr>]
   \<and> update_graph (aggregate_data sample_to_numeric [scenario_table, scenario_table] [''Aggregate'', ''Ontario''] years components)
        ''2016-17'' [''Equalization''] (Some [''include'']) =
       Inr [\<lparr>Province = ''Aggregate'', Component = ''Equalization'', Value = Num 100\<rparr>,
            \<lparr>Province = ''Ontario'', Component = ''Equalization'', Value = Num 100\<rparr>]"
  by code_simp

text \<open>
  Every text that the tables of the examples hand to the parser is one of the seven that
  \<open>read_sample\<close> knows.
\<close>

lemma example_texts:
  "list_all (\<lambda>t. list_all (\<lambda>(c, xs). list_all (\<lambda>x. prepare x \<in> set [''0'', ''7'', ''100'', ''200'', ''1234'', '''', ''n/a'']) xs)
                          (tl (rcols t)))
     [scenario_table, duplicate_table, case_variant_table, gap_table, malformed_table]"
  by code_simp

section \<open>C1: a fiscal year outside the list\<close>

text \<open>
  C1, as amended.  For a fiscal year that is not in the list \<open>years\<close>, the projection
  of a dataset built by \<open>aggregate_data\<close> does not fail: \<open>build_long_dataframe\<close>
  returns its usual rows, one for every kept jurisdiction and every component, and
  every value is 0, because the KeyError of \<open>df.at\<close> is caught.  Whether
  \<open>update_graph\<close> raises does not depend on the year (it raises only when there is no
  row at all).
\<close>

theorem C1_noncanonical_year_zero:
  assumes "year \<notin> set years"
  shows "build_long_dataframe (aggregate_data tn tables ns years components) year inc =
           concat (map (\<lambda>item. map (\<lambda>comp. \<lparr>Province = fst item, Component = comp, Value = Num 0\<rparr>)
                                   components)
                       (filter (\<lambda>item. inc \<or> lower (fst item) \<noteq> ''aggregate'')
                               (aggregate_data tn tables ns years components)))
       \<and> isl (update_graph (aggregate_data tn tables ns years components) year sel aggregate_val) =
         isl (update_graph (aggregate_data tn tables ns years components) ''2016-17'' sel aggregate_val)"
proof -
  let ?dd = "aggregate_data tn tables ns years components"
  have z: "province_rows year item =
           map (\<lambda>comp. \<lparr>Province = fst item, Component = comp, Value = Num 0\<rparr>) components"
    if "item \<in> set ?dd" for item
  proof -
    from that have "(fst item, snd item) \<in> set ?dd" by simp
    then obtain t where "process_table tn years components t = Inr (snd item)"
      using aggregate_data_values by blast
    then have "fcolumns (snd item) = years" by (rule process_table_columns)
    with assms have "frame_at (snd item) comp year = Inl KeyError" for comp
      by (simp add: frame_at_no_column)
    then show ?thesis by (simp add: province_rows_def)
  qed
  have "build_long_dataframe ?dd year inc =
        concat (map (province_rows year) (filter (\<lambda>item. \<not> (\<not> inc \<and> lower (fst item) = ''aggregate'')) ?dd))"
    unfolding build_long_dataframe_def by (rule concat_map_if_Nil)
  also have "\<dots> = concat (map (\<lambda>item. map (\<lambda>comp. \<lparr>Province = fst item, Component = comp, Value = Num 0\<rparr>)
                                   components)
                       (filter (\<lambda>item. \<not> (\<not> inc \<and> lower (fst item) = ''aggregate'')) ?dd))"
    by (rule arg_cong[where f = concat], rule map_cong) (auto simp: z)
  finally have a: "build_long_dataframe ?dd year inc =
           concat (map (\<lambda>item. map (\<lambda>comp. \<lparr>Province = fst item, Component = comp, Value = Num 0\<rparr>)
                                   components)
                       (filter (\<lambda>item. inc \<or> lower (fst item) \<noteq> ''aggregate'') ?dd))"
    by (simp only: de_Morgan_conj not_not)
  have b: "isl (update_graph ?dd year sel aggregate_val) =
         isl (update_graph ?dd ''2016-17'' sel aggregate_val)"
    by (simp add: update_graph_def Let_def build_long_empty_iff)
  from a b show ?thesis by blast
qed

text \<open>The theorem at the year 1999-00 and the scenario's two tables.\<close>

theorem C1_noncanonical_year_zero_witness:
  "''1999-00'' \<notin> set years
   \<and> build_long_dataframe
         (aggregate_data sample_to_numeric [scenario_table, scenario_table] [''Aggregate'', ''Ontario''] years components)
         ''1999-00'' False =
       concat (map (\<lambda>item. map (\<lambda>comp. \<lparr>Province = fst item, Component = comp, Value = Num 0\<rparr>)
                                   components)
                   (filter (\<lambda>item. False \<or> lower (fst item) \<noteq> ''aggregate'')
                           (aggregate_data sample_to_numeric [scenario_table, scenario_table] [''Aggregate'', ''Ontario'']
                              years components)))"
proof -
  have h: "''1999-00'' \<notin> set years"
    by (simp add: years_def)
  show ?thesis
    by (rule conjI[OF h conjunct1[OF C1_noncanonical_year_zero[OF h]]])
qed

text \<open>
  The claim as written expects an error for the year 1999-00; the code returns a
  projection, with the value 0 in every row.
\<close>

theorem C1_counterexample:
  "''1999-00'' \<notin> set years
   \<and> update_graph (startup sample_to_numeric [scenario_table]) ''1999-00'' [''Equalization''] (Some [''include'']) =
       Inr [\<lparr>Province = ''Aggregate'', Component = ''Equalization'', Value = Num 0\<rparr>]
   \<and> build_long_dataframe (startup sample_to_numeric [scenario_table]) ''1999-00'' True =
       [\<lparr>Province = ''Aggregate'', Component = ''Canada Health Transfer'', Value = Num 0\<rparr>,
        \<lparr>Province = ''Aggregate'', Component = ''Canada Social Transfer'', Value = Num 0\<rparr>,
        \<lparr>Province = ''Aggregate'', Component = ''Equalization'', Value = Num 0\<rparr>,
        \<lparr>Province = ''Aggregate'', Component = ''Offshore Offsets'', Value = Num 0\<rparr>,
        \<lparr>Province = ''Aggregate'', Component = ''Territorial Formula Financing'', Value = Num 0\<rparr>,
        \<lparr>Province = ''Aggregate'', Component = ''Total - Federal Support'', Value = Num 0\<rparr>,
        \<lparr>Province = ''Aggregate'', Component = ''Per Capita Allocation (dollars)'', Value = Num 0\<rparr>]"
  by code_simp

section \<open>C2: the order of the projection\<close>

text \<open>
  C2, as amended.  Whenever \<open>update_graph\<close> hands rows to the chart, they are grouped
  by jurisdiction in the order in which the dataset stores the jurisdictions (the
  aggregate left out when it is excluded), and within each jurisdiction the requested
  components appear in the order of the module's list \<open>components\<close>: the request only
  filters, it does not order.
\<close>

theorem C2_projection_order:
  assumes "update_graph dd year sel aggregate_val = Inr rows"
  shows "rows =
     concat (map (\<lambda>item.
                map (\<lambda>comp. \<lparr>Province = fst item, Component = comp,
                       Value = (case frame_at (snd item) comp year of Inr v \<Rightarrow> v | Inl e \<Rightarrow> Num 0)\<rparr>)
                    (filter (\<lambda>comp. comp \<in> set sel) components))
             (filter (\<lambda>item. (case aggregate_val of None \<Rightarrow> True | Some vs \<Rightarrow> ''include'' \<in> set vs)
                              \<or> lower (fst item) \<noteq> ''aggregate'') dd))"
proof -
  let ?inc = "case aggregate_val of None \<Rightarrow> True | Some vs \<Rightarrow> ''include'' \<in> set vs"
  from assms have "rows = filter (\<lambda>row. Component row \<in> set sel) (build_long_dataframe dd year ?inc)"
    by (simp add: update_graph_def Let_def split: if_splits)
  also have "\<dots> = concat (map (\<lambda>item. filter (\<lambda>row. Component row \<in> set sel) (province_rows year item))
                 (filter (\<lambda>item. \<not> (\<not> ?inc \<and> lower (fst item) = ''aggregate'')) dd))"
    unfolding build_long_dataframe_def concat_map_if_Nil
    by (simp add: filter_concat comp_def)
  finally show ?thesis
    by (simp only: filter_province_rows de_Morgan_conj not_not)
qed

text \<open>
  The theorem at the scenario's two tables, for the year 2016-17 and the request
  Equalization, Canada Health Transfer.
\<close>

theorem C2_projection_order_witness:
  "update_graph (startup sample_to_numeric [scenario_table, scenario_table]) ''2016-17''
      [''Equalization'', ''Canada Health Transfer''] None =
   Inr [\<lparr>Province = ''Aggregate'', Component = ''Canada Health Transfer'', Value = Num 0\<rparr>,
        \<lparr>Province = ''Aggregate'', Component = ''Equalization'', Value = Num 100\<rparr>,
        \<lparr>Province = ''Newfoundland and Labrador'', Component = ''Canada Health Transfer'', Value = Num 0\<rparr>,
        \<lparr>Province = ''Newfoundland and Labrador'', Component = ''Equalization'', Value = Num 100\<rparr>]
   \<and> [\<lparr>Province = ''Aggregate'', Component = ''Canada Health Transfer'', Value = Num 0\<rparr>,
        \<lparr>Province = ''Aggregate'', Component = ''Equalization'', Value = Num 100\<rparr>,
        \<lparr>Province = ''Newfoundland and Labrador'', Component = ''Canada Health Transfer'', Value = Num 0\<rparr>,
        \<lparr>Province = ''Newfoundland and Labrador'', Component = ''Equalization'', Value = Num 100\<rparr>] =
     concat (map (\<lambda>item.
                map (\<lambda>comp. \<lparr>Province = fst item, Component = comp,
                       Value = (case frame_at (snd item) comp ''2016-17'' of Inr v \<Rightarrow> v | Inl e \<Rightarrow> Num 0)\<rparr>)
                    (filter (\<lambda>comp. comp \<in> set [''Equalization'', ''Canada Health Transfer'']) components))
             (filter (\<lambda>item. (case None of None \<Rightarrow> True | Some vs \<Rightarrow> ''include'' \<in> set vs)
                              \<or> lower (fst item) \<noteq> ''aggregate'') (startup sample_to_numeric [scenario_table, scenario_table])))"
proof -
  have h: "update_graph (startup sample_to_numeric [scenario_table, scenario_table]) ''2016-17''
      [''Equalization'', ''Canada Health Transfer''] None =
   Inr [\<lparr>Province = ''Aggregate'', Component = ''Canada Health Transfer'', Value = Num 0\<rparr>,
        \<lparr>Province = ''Aggregate'', Component = ''Equalization'', Value = Num 100\<rparr>,
        \<lparr>Province = ''Newfoundland and Labrador'', Component = ''Canada Health Transfer'', Value = Num 0\<rparr>,
        \<lparr>Province = ''Newfoundland and Labrador'', Component = ''Equalization'', Value = Num 100\<rparr>]"
    by code_simp
  show ?thesis
    by (rule conjI[OF h C2_projection_order[OF h]])
qed

text \<open>
  The claim as written asks for Equalization before Canada Health Transfer; the rows
  come the other way round.
\<close>

theorem C2_counterexample:
  "map Component
     (projr (update_graph (startup sample_to_numeric [scenario_table, scenario_table]) ''2020-21''
        [''Equalization'', ''Canada Health Transfer''] (Some [''include''])))
   = [''Canada Health Transfer'', ''Equalization'', ''Canada Health Transfer'', ''Equalization'']
   \<and> update_graph (startup sample_to_numeric [scenario_table, scenario_table]) ''2020-21''
        [''Equalization'', ''Canada Health Transfer''] (Some [''include'']) =
   Inr [\<lparr>Province = ''Aggregate'', Component = ''Canada Health Transfer'', Value = Num 0\<rparr>,
        \<lparr>Province = ''Aggregate'', Component = ''Equalization'', Value = Num 0\<rparr>,
        \<lparr>Province = ''Newfoundland and Labrador'', Component = ''Canada Health Transfer'', Value = Num 0\<rparr>,
        \<lparr>Province = ''Newfoundland and Labrador'', Component = ''Equalization'', Value = Num 0\<rparr>]"
  by code_simp

section \<open>C3: every cell of the stored table\<close>




section \<open>C4: the Numeric Coercer\<close>




section \<open>C5: the Label Normalizer\<close>

text \<open>
  C5, as amended.  For every raw label the Label Normalizer removes a trailing suffix of
  whitespace and digits and then trims surrounding whitespace, where the suffix may
  also be followed by one newline that ends the label (Python's \<open>$\<close> holds before
  it); so \<open>Equalization 12\<close> becomes \<open>Equalization\<close>.  The selection of rows that
  follows compares the label in lower case with the components in lower case.
\<close>

theorem C5_label_normalizer:
  "normalize_label s = spec_normalize_label (if ends_digit_newline s then butlast s else s)
   \<and> normalize_label ''Equalization 12'' = ''Equalization''
   \<and> normalize_label ''  Total - Federal Support'' = ''Total - Federal Support''
   \<and> findex (select_components cs df) =
       filter (\<lambda>l. lower l \<in> set (map lower cs)) (findex df)"
proof -
  have a: "normalize_label ''Equalization 12'' = ''Equalization''"
    by code_simp
  have b: "normalize_label ''  Total - Federal Support'' = ''Total - Federal Support''"
    by code_simp
  from normalize_label_char[of s] a b findex_select_components[of cs df] show ?thesis
    by blast
qed

text \<open>
  The theorem at a label with a footnote mark and at a table whose labels are in
  another case than the components.
\<close>

theorem C5_label_normalizer_witness:
  "normalize_label ''Offshore Offsets  7'' = spec_normalize_label ''Offshore Offsets  7''
   \<and> normalize_label ''Offshore Offsets  7'' = ''Offshore Offsets''
   \<and> findex (select_components components
         \<lparr>findex = [''EQUALIZATION'', ''Population'', ''canada health transfer''],
          fcols = [(''2016-17'', [Num 1, Num 2, Num 3])]\<rparr>) =
       [''EQUALIZATION'', ''canada health transfer'']"
proof -
  have e: "\<not> ends_digit_newline ''Offshore Offsets  7''" by code_simp
  have v: "spec_normalize_label ''Offshore Offsets  7'' = ''Offshore Offsets''" by code_simp
  have f: "filter (\<lambda>l. lower l \<in> set (map lower components))
             (findex \<lparr>findex = [''EQUALIZATION'', ''Population'', ''canada health transfer''],
                      fcols = [(''2016-17'', [Num 1, Num 2, Num (3::rat)])]\<rparr>) =
           [''EQUALIZATION'', ''canada health transfer'']"
    by code_simp
  from C5_label_normalizer[of "''Offshore Offsets  7''" components
      "\<lparr>findex = [''EQUALIZATION'', ''Population'', ''canada health transfer''],
        fcols = [(''2016-17'', [Num 1, Num 2, Num 3])]\<rparr>"] e v f
  show ?thesis by simp
qed

text \<open>
  The claim as written removes a suffix only at the very end of the label; for a label
  that ends with a newline the code removes the footnote mark before it, where the
  specification's wording leaves the label as it is.
\<close>

theorem C5_counterexample:
  "normalize_label (''Equalization 12'' @ [newline]) = ''Equalization''
   \<and> spec_normalize_label (''Equalization 12'' @ [newline]) = ''Equalization 12''"
  by code_simp

section \<open>C6: a table that fails is left out\<close>

text \<open>
  C6.  The jurisdiction names are distinct, one per table.  When the \<open>try\<close> block
  raises for the table at position \<open>i\<close>, and for no other table, the dataset has one
  entry fewer than there are tables, the name at position \<open>i\<close> is not a key of it, and
  every other name is a key, bound to the table computed from its own raw table.
\<close>

theorem C6_aggregator_omission:
  assumes "distinct ns" and "length ns = length tables" and "i < length tables"
    and "process_table tn ys cs (tables ! i) = Inl e"
    and "\<forall>j < length tables. j \<noteq> i \<longrightarrow> \<not> isl (process_table tn ys cs (tables ! j))"
  shows "length (aggregate_data tn tables ns ys cs) = length tables - 1
       \<and> ns ! i \<notin> fst ` set (aggregate_data tn tables ns ys cs)
       \<and> (\<forall>j < length tables. j \<noteq> i \<longrightarrow>
             (\<exists>f. process_table tn ys cs (tables ! j) = Inr f
                  \<and> map_of (aggregate_data tn tables ns ys cs) (ns ! j) = Some f))"
proof -
  let ?zs = "zip ns tables"
  have len: "length ?zs = length tables" using assms(2) by simp
  have nth: "\<And>j. j < length tables \<Longrightarrow> ?zs ! j = (ns ! j, tables ! j)"
    using assms(2) by simp
  have "length (List.map_filter (stored tn ys cs) ?zs) = length ?zs - 1"
  proof (rule length_map_filter_one_None[where i = i])
    show "i < length ?zs" using assms(3) len by simp
    show "stored tn ys cs (?zs ! i) = None"
      using assms(3,4) nth by (simp add: stored_def)
    fix j assume "j < length ?zs" "j \<noteq> i"
    with assms(5) len nth show "stored tn ys cs (?zs ! j) \<noteq> None"
      by (auto simp: stored_def split: sum.splits)
  qed
  then have a: "length (aggregate_data tn tables ns ys cs) = length tables - 1"
    using len by (simp add: aggregate_data_distinct[OF assms(1)])
  have b: "ns ! i \<notin> fst ` set (aggregate_data tn tables ns ys cs)"
  proof
    assume "ns ! i \<in> fst ` set (aggregate_data tn tables ns ys cs)"
    then obtain f where "(ns ! i, f) \<in> set (aggregate_data tn tables ns ys cs)" by auto
    then obtain j where j: "j < length ns" "j < length tables" "ns ! i = ns ! j"
        "process_table tn ys cs (tables ! j) = Inr f"
      using in_aggregate_data_iff[OF assms(1)] by blast
    from j(1,3) assms(1,2,3) have "i = j"
      by (simp add: nth_eq_iff_index_eq)
    with j(4) assms(4) show False by simp
  qed
  have c: "\<forall>j < length tables. j \<noteq> i \<longrightarrow>
             (\<exists>f. process_table tn ys cs (tables ! j) = Inr f
                  \<and> map_of (aggregate_data tn tables ns ys cs) (ns ! j) = Some f)"
  proof (intro allI impI)
    fix j assume j: "j < length tables" "j \<noteq> i"
    with assms(5) obtain f where f: "process_table tn ys cs (tables ! j) = Inr f"
      by (cases "process_table tn ys cs (tables ! j)") auto
    with j assms(2) have "(ns ! j, f) \<in> set (aggregate_data tn tables ns ys cs)"
      using in_aggregate_data_iff[OF assms(1)] by auto
    then have "map_of (aggregate_data tn tables ns ys cs) (ns ! j) = Some f"
      using distinct_keys_aggregate[OF assms(1)] by simp
    with f show "\<exists>f. process_table tn ys cs (tables ! j) = Inr f
                  \<and> map_of (aggregate_data tn tables ns ys cs) (ns ! j) = Some f" by blast
  qed
  from a b c show ?thesis by blast
qed

text \<open>
  The theorem at five tables of which the one at position 3 has no columns, under the
  first five names of the page.
\<close>

theorem C6_aggregator_omission_witness:
  "length (aggregate_data sample_to_numeric [scenario_table, scenario_table, scenario_table, malformed_table, scenario_table]
             (map extract_province_name (take 5 chart_titles)) years components) = 4
   \<and> ''Nova Scotia'' \<notin> fst ` set (aggregate_data sample_to_numeric
             [scenario_table, scenario_table, scenario_table, malformed_table, scenario_table]
             (map extract_province_name (take 5 chart_titles)) years components)
   \<and> process_table sample_to_numeric years components malformed_table = Inl IndexError"
proof -
  let ?ts = "[scenario_table, scenario_table, scenario_table, malformed_table, scenario_table]"
  let ?ns = "map extract_province_name (take 5 chart_titles)"
  have ns: "?ns = [''Aggregate'', ''Newfoundland and Labrador'', ''Prince Edward Island'',
                   ''Nova Scotia'', ''New Brunswick'']"
    by code_simp
  have h1: "distinct ?ns" unfolding ns by simp
  have h2: "length ?ns = length ?ts" unfolding ns by simp
  have h3: "3 < length ?ts" by simp
  have bad: "process_table sample_to_numeric years components malformed_table = Inl IndexError"
    by code_simp
  have h4: "process_table sample_to_numeric years components (?ts ! 3) = Inl IndexError"
    using bad by simp
  have ok: "\<not> isl (process_table sample_to_numeric years components scenario_table)"
    by code_simp
  have h5: "\<forall>j < length ?ts. j \<noteq> 3 \<longrightarrow> \<not> isl (process_table sample_to_numeric years components (?ts ! j))"
    using ok by (auto simp: nth_Cons' less_Suc_eq)
  from C6_aggregator_omission[OF h1 h2 h3 h4 h5] bad show ?thesis
    unfolding ns by simp
qed

section \<open>C7: the Aggregator is deterministic\<close>

text \<open>
  C7.  Let the addresses \<open>tables\<close> hold the raw tables \<open>fs\<close>.  \<open>aggregate_data\<close> on
  these addresses returns what the value-level definition computes from \<open>fs\<close> and the
  names, so its result is a function of the tables and the names alone; a second run
  on the same addresses and names, in the store the first run left, returns the same
  dataset; and with distinct names the keys of the dataset are the names of the tables
  whose \<open>try\<close> block succeeded, in the order of the input.
\<close>

theorem C7_aggregator_deterministic:
  assumes "map (lookup s) tables = map (\<lambda>f. Some (Raw f)) fs"
  shows "fst (aggregate_data_st tn tables ns ys cs s) = aggregate_data tn fs ns ys cs
       \<and> fst (aggregate_data_st tn tables ns ys cs (snd (aggregate_data_st tn tables ns ys cs s))) =
         fst (aggregate_data_st tn tables ns ys cs s)
       \<and> (distinct ns \<longrightarrow>
            map fst (fst (aggregate_data_st tn tables ns ys cs s)) =
            map fst (filter (\<lambda>p. \<not> isl (process_table tn ys cs (snd p))) (zip ns fs)))"
proof -
  from aggregate_data_st_value[OF assms] obtain s1 where
    s1: "aggregate_data_st tn tables ns ys cs s = (aggregate_data tn fs ns ys cs, s1)"
        "take (length s) s1 = s"
    by blast
  have "map (lookup s1) tables = map (\<lambda>f. Some (Raw f)) fs"
    using s1(2) assms by (rule map_lookup_take)
  from aggregate_data_st_value[OF this] obtain s2 where
    s2: "aggregate_data_st tn tables ns ys cs s1 = (aggregate_data tn fs ns ys cs, s2)"
    by blast
  have "map fst (aggregate_data tn fs ns ys cs) =
        map fst (filter (\<lambda>p. \<not> isl (process_table tn ys cs (snd p))) (zip ns fs))"
    if "distinct ns"
    using that by (simp add: aggregate_data_distinct map_fst_map_filter_stored)
  with s1 s2 show ?thesis by simp
qed

text \<open>
  The theorem at a store with three raw tables, of which the second has no columns.
\<close>

theorem C7_aggregator_deterministic_witness:
  "map (lookup [Raw scenario_table, Raw malformed_table, Raw gap_table]) [0, 1, 2] =
     map (\<lambda>f. Some (Raw f)) [scenario_table, malformed_table, gap_table]
   \<and> fst (aggregate_data_st sample_to_numeric [0, 1, 2] [''Aggregate'', ''Ontario'', ''Quebec''] years components
           [Raw scenario_table, Raw malformed_table, Raw gap_table]) =
       aggregate_data sample_to_numeric [scenario_table, malformed_table, gap_table]
         [''Aggregate'', ''Ontario'', ''Quebec''] years components
   \<and> fst (aggregate_data_st sample_to_numeric [0, 1, 2] [''Aggregate'', ''Ontario'', ''Quebec''] years components
           (snd (aggregate_data_st sample_to_numeric [0, 1, 2] [''Aggregate'', ''Ontario'', ''Quebec''] years components
                   [Raw scenario_table, Raw malformed_table, Raw gap_table]))) =
       fst (aggregate_data_st sample_to_numeric [0, 1, 2] [''Aggregate'', ''Ontario'', ''Quebec''] years components
           [Raw scenario_table, Raw malformed_table, Raw gap_table])
   \<and> map fst (fst (aggregate_data_st sample_to_numeric [0, 1, 2] [''Aggregate'', ''Ontario'', ''Quebec''] years components
           [Raw scenario_table, Raw malformed_table, Raw gap_table])) = [''Aggregate'', ''Quebec'']"
proof -
  have h: "map (lookup [Raw scenario_table, Raw malformed_table, Raw gap_table]) [0, 1, 2] =
     map (\<lambda>f. Some (Raw f)) [scenario_table, malformed_table, gap_table]"
    by (simp add: lookup_def)
  have d: "distinct [''Aggregate'', ''Ontario'', ''Quebec'']" by simp
  have o: "map fst (filter (\<lambda>p. \<not> isl (process_table sample_to_numeric years components (snd p)))
             (zip [''Aggregate'', ''Ontario'', ''Quebec''] [scenario_table, malformed_table, gap_table])) =
           [''Aggregate'', ''Quebec'']"
    by code_simp
  note th = C7_aggregator_deterministic[OF h, where tn = sample_to_numeric
      and ns = "[''Aggregate'', ''Ontario'', ''Quebec'']" and ys = years and cs = components]
  note a = th[THEN conjunct1]
  note b = th[THEN conjunct2, THEN conjunct1]
  note c = th[THEN conjunct2, THEN conjunct2, rule_format, OF d]
  have c': "map fst (fst (aggregate_data_st sample_to_numeric [0, 1, 2] [''Aggregate'', ''Ontario'', ''Quebec''] years components
           [Raw scenario_table, Raw malformed_table, Raw gap_table])) = [''Aggregate'', ''Quebec'']"
    by (rule trans[OF c o])
  show ?thesis
    by (intro conjI h a b c')
qed

section \<open>C8: cleaning a table twice\<close>

text \<open>
  C8.  Let the address \<open>a\<close> hold a raw table.  \<open>clean_table\<close> on \<open>a\<close> returns what
  the value-level definition computes from that table; no object that was in the store
  before the call has changed afterwards, in particular the raw table at \<open>a\<close>; and a
  second call on \<open>a\<close>, in the store the first call left, returns the same result.
\<close>

theorem C8_clean_table_twice:
  assumes "lookup s a = Some (Raw f)"
  shows "fst (clean_table_st tn a s) = clean_table tn f
       \<and> take (length s) (snd (clean_table_st tn a s)) = s
       \<and> lookup (snd (clean_table_st tn a s)) a = Some (Raw f)
       \<and> fst (clean_table_st tn a (snd (clean_table_st tn a s))) = fst (clean_table_st tn a s)"
proof -
  from clean_table_st_value[OF assms] obtain s1 where
    s1: "clean_table_st tn a s = (clean_table tn f, s1)" "take (length s) s1 = s"
    by blast
  have l1: "lookup s1 a = Some (Raw f)"
    using s1(2) assms by (rule lookup_take)
  from clean_table_st_value[OF l1] obtain s2 where
    s2: "clean_table_st tn a s1 = (clean_table tn f, s2)"
    by blast
  from s1 l1 s2 show ?thesis by simp
qed

text \<open>The theorem at a store that holds one raw table.\<close>

theorem C8_clean_table_twice_witness:
  "lookup [Raw gap_table] 0 = Some (Raw gap_table)
   \<and> fst (clean_table_st sample_to_numeric 0 [Raw gap_table]) = clean_table sample_to_numeric gap_table
   \<and> lookup (snd (clean_table_st sample_to_numeric 0 [Raw gap_table])) 0 = Some (Raw gap_table)
   \<and> fst (clean_table_st sample_to_numeric 0 (snd (clean_table_st sample_to_numeric 0 [Raw gap_table]))) =
       fst (clean_table_st sample_to_numeric 0 [Raw gap_table])
   \<and> fst (clean_table_st sample_to_numeric 0 [Raw gap_table]) =
       Inr \<lparr>findex = [''Canada Health Transfer'', ''Equalization''],
            fcols = [(''2016-17'', [Num 1234, NaN]), (''2020-21'', [NaN, Num 0])]\<rparr>"
proof -
  have h: "lookup [Raw gap_table] 0 = Some (Raw gap_table)"
    by (simp add: lookup_def)
  have v: "clean_table sample_to_numeric gap_table =
       Inr \<lparr>findex = [''Canada Health Transfer'', ''Equalization''],
            fcols = [(''2016-17'', [Num 1234, NaN]), (''2020-21'', [NaN, Num 0])]\<rparr>"
    by code_simp
  from C8_clean_table_twice[OF h] h v show ?thesis by simp
qed

section \<open>C9: at most 14 jurisdictions\<close>

text \<open>
  C9.  At start-up the tables behind the 14th have no part: the run, with the dataset it
  builds and the lines it prints, is the same when they are dropped.  The dataset is
  made of the tables at the first 14 positions, each under the name of the title at its
  position, those left out whose \<open>try\<close> block raises; a line is printed for each of
  these, and for no other table, so nothing is printed for a table behind the 14th.  The
  dataset has at most 14 entries, and entries and printed lines together are as many as
  the smaller of 14 and the number of tables.
\<close>

theorem C9_startup_at_most_14:
  "startup_run tn tables = startup_run tn (take 14 tables)
   \<and> startup tn tables =
       List.map_filter (stored tn years components)
         (zip (map extract_province_name chart_titles) tables)
   \<and> printed (startup_run tn tables) =
       List.map_filter (failure tn years components) (zip [0..<14] tables)
   \<and> length (startup tn tables) \<le> 14
   \<and> length (startup tn tables) + length (printed (startup_run tn tables)) = min 14 (length tables)"
proof -
  let ?zs = "zip (map extract_province_name chart_titles) tables"
  let ?is = "zip [0..<14] tables"
  have a: "startup_run tn tables = startup_run tn (take 14 tables)"
    by (rule startup_run_take)
  have b: "startup tn tables = List.map_filter (stored tn years components) ?zs"
    by (rule startup_char)
  have c: "printed (startup_run tn tables) = List.map_filter (failure tn years components) ?is"
    by (rule startup_printed)
  have "length (startup tn tables) \<le> length ?zs"
    unfolding b by (rule length_map_filter_le)
  then have d: "length (startup tn tables) \<le> 14"
    by (simp add: length_chart_titles)
  have "length (map extract_province_name chart_titles) = length [0..<14]"
    by (simp add: length_chart_titles)
  from stored_failure_count[OF this, of tn years components tables]
  have e: "length (startup tn tables) + length (printed (startup_run tn tables)) = min 14 (length tables)"
    unfolding b c by (simp add: length_chart_titles)
  show ?thesis
    by (intro conjI a b c d e)
qed

text \<open>
  The theorem at 16 copies of the scenario's table, where 14 entries are stored and
  nothing is printed, and at 13 copies followed by three tables without columns, of which
  only the one at position 13 has its line.
\<close>

theorem C9_startup_at_most_14_witness:
  "length (startup sample_to_numeric (replicate 16 scenario_table)) = 14
   \<and> printed (startup_run sample_to_numeric (replicate 16 scenario_table)) = []
   \<and> startup_run sample_to_numeric (replicate 16 scenario_table) =
       startup_run sample_to_numeric (take 14 (replicate 16 scenario_table))
   \<and> printed (startup_run sample_to_numeric
         (replicate 13 scenario_table @ [malformed_table, malformed_table, malformed_table])) =
       [(13, IndexError)]
   \<and> length (startup sample_to_numeric
         (replicate 13 scenario_table @ [malformed_table, malformed_table, malformed_table])) = 13"
proof -
  let ?ts = "replicate 16 scenario_table"
  let ?us = "replicate 13 scenario_table @ [malformed_table, malformed_table, malformed_table]"
  note t = C9_startup_at_most_14[of sample_to_numeric ?ts]
  note u = C9_startup_at_most_14[of sample_to_numeric ?us]
  have e1: "List.map_filter (failure sample_to_numeric years components) (zip [0..<14] ?ts) = []"
    by code_simp
  have e2: "List.map_filter (failure sample_to_numeric years components) (zip [0..<14] ?us) =
            [(13, IndexError)]"
    by code_simp
  have p1: "printed (startup_run sample_to_numeric ?ts) = []"
    by (rule trans[OF t[THEN conjunct2, THEN conjunct2, THEN conjunct1] e1])
  have p2: "printed (startup_run sample_to_numeric ?us) = [(13, IndexError)]"
    by (rule trans[OF u[THEN conjunct2, THEN conjunct2, THEN conjunct1] e2])
  have n1: "length (startup sample_to_numeric ?ts) = 14"
    using t[THEN conjunct2, THEN conjunct2, THEN conjunct2, THEN conjunct2] p1 by simp
  have n2: "length (startup sample_to_numeric ?us) = 13"
    using u[THEN conjunct2, THEN conjunct2, THEN conjunct2, THEN conjunct2] p2 by simp
  show ?thesis
    by (intro conjI n1 p1 t[THEN conjunct1] p2 n2)
qed

section \<open>C10: duplicate row labels\<close>

text \<open>
  C10, as amended.  When the cleaned table has, at two positions, the same row label, and
  this label is one of the components, case ignored (so both rows are selected), then
  the reindexing of the rows raises ValueError and the handler of \<open>aggregate_data\<close>
  catches it: nothing is stored for the table, only a line is printed, and with distinct
  names the table's name is not a key of the dataset.
\<close>

theorem C10_duplicate_labels_omitted:
  assumes "clean_table tn (tables ! k) = Inr D"
    and "i < j" and "j < length (findex D)" and "findex D ! i = findex D ! j"
    and "lower (findex D ! i) \<in> set (map lower components)"
    and "distinct ns" and "k < length ns" and "k < length tables"
  shows "reindex_rows components (select_components components D) = Inl ValueError
       \<and> process_table tn years components (tables ! k) = Inl ValueError
       \<and> aggregate_step tn ns years components k (tables ! k) st = st\<lparr>printed := printed st @ [(k, ValueError)]\<rparr>
       \<and> ns ! k \<notin> fst ` set (aggregate_data tn tables ns years components)"
proof -
  have a: "reindex_rows components (select_components components D) = Inl ValueError"
    using assms(2-5) by (rule duplicate_labels_raise)
  with assms(1) have b: "process_table tn years components (tables ! k) = Inl ValueError"
    by (simp add: process_table_def)
  then have c: "aggregate_step tn ns years components k (tables ! k) st =
                st\<lparr>printed := printed st @ [(k, ValueError)]\<rparr>"
    by (simp add: aggregate_step_def store_result_def)
  have d: "ns ! k \<notin> fst ` set (aggregate_data tn tables ns years components)"
  proof
    assume "ns ! k \<in> fst ` set (aggregate_data tn tables ns years components)"
    then obtain f where "(ns ! k, f) \<in> set (aggregate_data tn tables ns years components)" by auto
    then obtain m where m: "m < length ns" "m < length tables" "ns ! k = ns ! m"
        "process_table tn years components (tables ! m) = Inr f"
      using in_aggregate_data_iff[OF assms(6)] by blast
    from m(1,3) assms(6,7) have "k = m"
      by (simp add: nth_eq_iff_index_eq)
    with m(4) b show False by simp
  qed
  from a b c d show ?thesis by blast
qed

text \<open>
  The theorem at a table that holds the rows \<open>Equalization 1\<close> and
  \<open>Equalization 2\<close>, second of two tables.
\<close>

theorem C10_duplicate_labels_omitted_witness:
  "process_table sample_to_numeric years components duplicate_table = Inl ValueError
   \<and> aggregate_data sample_to_numeric [scenario_table, duplicate_table] [''Aggregate'', ''Ontario''] years components
       = aggregate_data sample_to_numeric [scenario_table] [''Aggregate''] years components
   \<and> ''Ontario'' \<notin> fst ` set (aggregate_data sample_to_numeric [scenario_table, duplicate_table] [''Aggregate'', ''Ontario''] years components)"
proof -
  let ?ts = "[scenario_table, duplicate_table]"
  let ?ns = "[''Aggregate'', ''Ontario'']"
  let ?D = "\<lparr>findex = [''Equalization'', ''Canada Health Transfer'', ''Equalization''],
             fcols = [(''2016-17'', [Num 100, Num 7, Num 200])]\<rparr>"
  have h1: "clean_table sample_to_numeric (?ts ! 1) = Inr ?D" by code_simp
  have h2: "(0::nat) < 2" by simp
  have h3: "2 < length (findex ?D)" by simp
  have h4: "findex ?D ! 0 = findex ?D ! 2" by simp
  have h5: "lower (findex ?D ! 0) \<in> set (map lower components)" by code_simp
  have h6: "distinct ?ns" by simp
  have h7: "1 < length ?ns" by simp
  have h8: "1 < length ?ts" by simp
  have e: "aggregate_data sample_to_numeric [scenario_table, duplicate_table] [''Aggregate'', ''Ontario''] years components
       = aggregate_data sample_to_numeric [scenario_table] [''Aggregate''] years components"
    by code_simp
  from C10_duplicate_labels_omitted[OF h1 h2 h3 h4 h5 h6 h7 h8] e show ?thesis
    by simp
qed

text \<open>
  The claim as written speaks of rows whose labels match the same component.  The rows
  \<open>EQUALIZATION\<close> and \<open>Equalization\<close> both match the component Equalization and
  both are selected, but their labels differ, so nothing is raised: the table is stored
  under its name and no line is printed.
\<close>

theorem C10_counterexample:
  "findex (projr (clean_table sample_to_numeric case_variant_table)) =
     [''EQUALIZATION'', ''Equalization'', ''canada health transfer'']
   \<and> lower ''EQUALIZATION'' = lower ''Equalization''
   \<and> ''Equalization'' \<in> set components
   \<and> findex (select_components components (projr (clean_table sample_to_numeric case_variant_table))) =
     [''EQUALIZATION'', ''Equalization'', ''canada health transfer'']
   \<and> \<not> isl (process_table sample_to_numeric years components case_variant_table)
   \<and> map fst (aggregate_data sample_to_numeric [scenario_table, case_variant_table]
                 [''Aggregate'', ''Ontario''] years components) = [''Aggregate'', ''Ontario'']
   \<and> printed (aggregate_run sample_to_numeric [scenario_table, case_variant_table]
                 [''Aggregate'', ''Ontario''] years components) = []"
  by code_simp

end
